theory Spec2Isabelle
  imports Main "HOL-Library.Multiset"
begin

section \<open>Values, errors and the Option of the yielder module\<close>

text \<open>
  The planner lives in \<^verbatim>\<open>gaap.ts\<close>. Its stores are JavaScript \<^verbatim>\<open>Map\<close>s from
  strings to values, its actions, effects and expectations are objects holding closures.
  Numbers are modelled as integers (the demo world only uses small integers, on which
  double arithmetic is exact); \<^verbatim>\<open>-Infinity\<close> and \<^verbatim>\<open>Infinity\<close> as bounds of a clamp
  are modelled by an absent bound.

  Exceptions are values. \<open>UnwrapNone\<close> stands for \<^verbatim>\<open>unwrap()\<close> on an absent value,
  \<open>TypeError\<close> is the JavaScript error of reading a property of \<^verbatim>\<open>undefined\<close>, and
  \<open>Thrown\<close> stands for anything a user-supplied closure throws.
\<close>

datatype error = UnwrapNone | TypeError | Thrown string

type_synonym num = int

text \<open>
  Modelled from the spec: the module \<^verbatim>\<open>yielder\<close> that defines \<^verbatim>\<open>Option\<close> is not
  part of the sources. The spec describes it as the sum type \<open>Some(T) | None\<close>, which is
  \<open>'a option\<close>. It leaves \<^verbatim>\<open>unwrap\<close> on an absent value undefined (to call
  \<^verbatim>\<open>apply\<close> on a missing property "is undefined per this design"); the model makes it
  the exception \<open>UnwrapNone\<close>.
\<close>

definition unwrap :: "'a option \<Rightarrow> error + 'a" where
  "unwrap opt = (case opt of None \<Rightarrow> Inl UnwrapNone | Some x \<Rightarrow> Inr x)"

definition is_some :: "'a option \<Rightarrow> bool" where
  "is_some opt = (case opt of None \<Rightarrow> False | Some x \<Rightarrow> True)"

section \<open>Store: the object returned by createPseudoAgent\<close>

text \<open>
  \<^verbatim>\<open>createPseudoAgent\<close> closes over a fresh \<^verbatim>\<open>Map\<close>. A JavaScript \<^verbatim>\<open>Map\<close> keeps
  its entries in insertion order: \<^verbatim>\<open>Map.set\<close> overwrites the value of a key that is
  present, where it stands, and appends a new entry otherwise. The store is therefore an
  association list, and every mutating method returns the new store with its result.
\<close>

type_synonym 'v store = "(string \<times> 'v) list"

fun map_has :: "'k \<Rightarrow> ('k \<times> 'v) list \<Rightarrow> bool" where
  "map_has k [] = False"
| "map_has k ((k', v') # m) = (if k' = k then True else map_has k m)"

fun map_get :: "'k \<Rightarrow> ('k \<times> 'v) list \<Rightarrow> 'v option" where
  "map_get k [] = None"
| "map_get k ((k', v') # m) = (if k' = k then Some v' else map_get k m)"

fun map_set :: "'k \<Rightarrow> 'v \<Rightarrow> ('k \<times> 'v) list \<Rightarrow> ('k \<times> 'v) list" where
  "map_set k v [] = [(k, v)]"
| "map_set k v ((k', v') # m) = (if k' = k then (k, v) # m else (k', v') # map_set k v m)"

definition createPseudoAgent :: "'v store" where
  "createPseudoAgent = []"

definition store_get :: "string \<Rightarrow> 'v store \<Rightarrow> 'v option" where
  "store_get key values = (if map_has key values then map_get key values else None)"

definition store_set :: "string \<Rightarrow> 'v \<Rightarrow> 'v store \<Rightarrow> bool \<times> 'v store" where
  "store_set key val values =
     (if \<not> map_has key values then (False, values) else (True, map_set key val values))"

definition store_put :: "string \<Rightarrow> 'v \<Rightarrow> 'v store \<Rightarrow> bool \<times> 'v store" where
  "store_put key val values =
     (if map_has key values then (False, values) else (True, map_set key val values))"

definition store_has :: "string \<Rightarrow> 'v store \<Rightarrow> bool" where
  "store_has key values = map_has key values"

definition store_keys :: "'v store \<Rightarrow> string list" where
  "store_keys values = map fst values"

text \<open>
  \<^verbatim>\<open>pseudoAgentFrom\<close> on the contents of the source store: a fresh store receives
  \<^verbatim>\<open>put(key, store.get(key).unwrap())\<close> for every key of the source, in order.
\<close>

fun copy_keys :: "string list \<Rightarrow> 'v store \<Rightarrow> 'v store \<Rightarrow> (error + unit) \<times> 'v store" where
  "copy_keys [] store agent = (Inr (), agent)"
| "copy_keys (key # ks) store agent =
     (case unwrap (store_get key store) of
        Inl e \<Rightarrow> (Inl e, agent)
      | Inr v \<Rightarrow> copy_keys ks store (snd (store_put key v agent)))"

definition copy_store :: "'v store \<Rightarrow> (error + unit) \<times> 'v store" where
  "copy_store store = copy_keys (store_keys store) store createPseudoAgent"

section \<open>Effects, actions, expectations, goals\<close>

text \<open>
  The closures of an action, an effect or an expectation receive the two stores.
  \<^verbatim>\<open>apply\<close> mutates them: it maps the contents of the two stores to their new contents,
  with the exception it raised, if any. Here it acts on the two stores it is given and on
  nothing else, as the effects built by \<^verbatim>\<open>changeAmtEffect\<close> do, and the values of a
  store are numbers, as in the demo world but for \<^verbatim>\<open>pos\<close>, so that a clone shares
  nothing with the store it was copied from. Stores that hold arrays, which a clone
  shares with its source, and effects that write elsewhere are the subject of the last
  section of the model.
  \<^verbatim>\<open>canPerform\<close>, \<^verbatim>\<open>check\<close> and \<^verbatim>\<open>compare\<close> are read-only (the spec requires
  them to be pure): they return a value or raise. An effect's \<^verbatim>\<open>check\<close> returns the
  contents of the two clones it built. JavaScript compares actions by reference; the
  field \<open>ident\<close> is the identity of the action object.
\<close>

datatype target = Agent | World

datatype comparison = GT | LT | EQ

type_synonym concept = "num store \<times> num store"

record effect =
  fx_name :: string
  fx_on :: target
  fx_apply :: "num store \<Rightarrow> num store \<Rightarrow> (error + unit) \<times> num store \<times> num store"
  fx_check :: "num store \<Rightarrow> num store \<Rightarrow> error + concept option"

record action =
  ident :: nat
  act_name :: string
  canPerform :: "num store \<Rightarrow> num store \<Rightarrow> error + bool"
  effects :: "effect list"
  cost :: num

record expects =
  ex_name :: string
  ex_target :: target
  ex_property :: string
  ex_compare :: "concept \<Rightarrow> concept \<Rightarrow> error + comparison"
  ex_check :: "num store \<Rightarrow> num store \<Rightarrow> error + bool"

record goal =
  goal_name :: string
  expectations :: "expects list"

definition NOOP :: action where
  "NOOP = \<lparr> ident = 0, act_name = ''No Op'', canPerform = (\<lambda>agent world. Inr True),
            effects = [], cost = 0 \<rparr>"

definition invert :: "comparison \<Rightarrow> comparison" where
  "invert c = (case c of GT \<Rightarrow> LT | LT \<Rightarrow> GT | EQ \<Rightarrow> EQ)"

definition numCmp :: "num \<Rightarrow> num \<Rightarrow> comparison" where
  "numCmp a b = (if a > b then GT else if b > a then LT else EQ)"

subsection \<open>changeAmtEffect\<close>

datatype amt = Flat num | Clamped num num num

definition math_max :: "num \<Rightarrow> num option \<Rightarrow> num" where
  "math_max x lo = (case lo of None \<Rightarrow> x | Some m \<Rightarrow> max x m)"

definition math_min :: "num \<Rightarrow> num option \<Rightarrow> num" where
  "math_min x hi = (case hi of None \<Rightarrow> x | Some m \<Rightarrow> min x m)"

definition amt_amount :: "amt \<Rightarrow> num" where
  "amt_amount a = (case a of Flat n \<Rightarrow> n | Clamped n lo hi \<Rightarrow> n)"

definition amt_min :: "amt \<Rightarrow> num option" where
  "amt_min a = (case a of Flat n \<Rightarrow> None | Clamped n lo hi \<Rightarrow> Some lo)"

definition amt_max :: "amt \<Rightarrow> num option" where
  "amt_max a = (case a of Flat n \<Rightarrow> None | Clamped n lo hi \<Rightarrow> Some hi)"

definition updateStore :: "amt \<Rightarrow> string \<Rightarrow> num store \<Rightarrow> (error + bool) \<times> num store" where
  "updateStore a propName store =
     (case unwrap (store_get propName store) of
        Inl e \<Rightarrow> (Inl e, store)
      | Inr v \<Rightarrow>
          (case store_set propName
                  (math_min (math_max (v + amt_amount a) (amt_min a)) (amt_max a)) store of
             (ok, store') \<Rightarrow> (Inr ok, store')))"

definition changeAmt_apply ::
  "amt \<Rightarrow> target \<Rightarrow> string \<Rightarrow> num store \<Rightarrow> num store \<Rightarrow> (error + unit) \<times> num store \<times> num store"
where
  "changeAmt_apply a on propName agent world =
     (if on = Agent
      then (case updateStore a propName agent of
              (Inl e, agent') \<Rightarrow> (Inl e, agent', world)
            | (Inr ok, agent') \<Rightarrow> (Inr (), agent', world))
      else (case updateStore a propName world of
              (Inl e, world') \<Rightarrow> (Inl e, agent, world')
            | (Inr ok, world') \<Rightarrow> (Inr (), agent, world')))"

definition changeAmt_check ::
  "amt \<Rightarrow> target \<Rightarrow> string \<Rightarrow> num store \<Rightarrow> num store \<Rightarrow> error + concept option"
where
  "changeAmt_check a on propName agent world =
     (let aO = store_get propName agent; wO = store_get propName world in
      if on = Agent \<and> \<not> is_some aO then Inr None
      else if on = World \<and> \<not> is_some wO then Inr None
      else (case copy_store agent of
              (Inl e, fA) \<Rightarrow> Inl e
            | (Inr u, fA) \<Rightarrow>
               (case copy_store world of
                  (Inl e, fW) \<Rightarrow> Inl e
                | (Inr u, fW) \<Rightarrow>
                   (case changeAmt_apply a on propName fA fW of
                      (Inl e, fA', fW') \<Rightarrow> Inl e
                    | (Inr u, fA', fW') \<Rightarrow> Inr (Some (fA', fW'))))))"

definition changeAmtEffect :: "amt \<Rightarrow> target \<Rightarrow> string \<Rightarrow> effect" where
  "changeAmtEffect a on propName =
     \<lparr> fx_name = (if amt_amount a < 0 then ''Decrement'' else ''Increment'') @ '' '' @ propName
                  @ '' on '' @ (if on = Agent then ''agent'' else ''world''),
       fx_on = on,
       fx_apply = changeAmt_apply a on propName,
       fx_check = changeAmt_check a on propName \<rparr>"

subsection \<open>applyAction, goalReached, goalCmp, planCost\<close>

fun applyEffects ::
  "effect list \<Rightarrow> num store \<Rightarrow> num store \<Rightarrow> (error + unit) \<times> num store \<times> num store"
where
  "applyEffects [] agent world = (Inr (), agent, world)"
| "applyEffects (fx # fxs) agent world =
     (case fx_apply fx agent world of
        (Inl e, agent', world') \<Rightarrow> (Inl e, agent', world')
      | (Inr u, agent', world') \<Rightarrow> applyEffects fxs agent' world')"

definition applyAction ::
  "num store \<Rightarrow> num store \<Rightarrow> action \<Rightarrow> (error + unit) \<times> num store \<times> num store" where
  "applyAction agent world act = applyEffects (effects act) agent world"

fun checkAll :: "expects list \<Rightarrow> num store \<Rightarrow> num store \<Rightarrow> error + bool" where
  "checkAll [] agent world = Inr True"
| "checkAll (expec # es) agent world =
     (case ex_check expec agent world of
        Inl e \<Rightarrow> Inl e
      | Inr ok \<Rightarrow> if \<not> ok then Inr False else checkAll es agent world)"

definition goalReached :: "goal \<Rightarrow> num store \<Rightarrow> num store \<Rightarrow> error + bool" where
  "goalReached g agent world = checkAll (expectations g) agent world"

fun tally :: "expects list \<Rightarrow> concept \<Rightarrow> concept \<Rightarrow> nat \<Rightarrow> nat \<Rightarrow> error + nat \<times> nat" where
  "tally [] A B expectsA expectsB = Inr (expectsA, expectsB)"
| "tally (expec # es) A B expectsA expectsB =
     (case ex_compare expec A B of
        Inl e \<Rightarrow> Inl e
      | Inr comparison \<Rightarrow>
          if comparison = GT then tally es A B (expectsA + 1) expectsB
          else if comparison = LT then tally es A B expectsA (expectsB + 1)
          else tally es A B expectsA expectsB)"

definition verdict :: "nat \<Rightarrow> nat \<Rightarrow> comparison" where
  "verdict expectsA expectsB =
     (if expectsA > expectsB then GT else if expectsB > expectsA then LT else EQ)"

definition goalCmp ::
  "goal \<Rightarrow> num store \<Rightarrow> num store \<Rightarrow> num store \<Rightarrow> num store \<Rightarrow> error + comparison" where
  "goalCmp g agentA worldA agentB worldB =
     (case tally (expectations g) (agentA, worldA) (agentB, worldB) 0 0 of
        Inl e \<Rightarrow> Inl e
      | Inr (expectsA, expectsB) \<Rightarrow> Inr (verdict expectsA expectsB))"

definition planCost :: "action list \<Rightarrow> num" where
  "planCost plan = foldl (\<lambda>c act. c + cost act) 0 plan"

section \<open>The planner\<close>

text \<open>
  Stores are objects: the planner receives references to the real agent and world stores
  and allocates clones of them. The heap is the list of all store objects allocated so far,
  a reference is an index into it, and a computation maps the heap to its result, a value
  or the exception raised, and the new heap.
\<close>

type_synonym heap = "num store list"

type_synonym ref = nat

type_synonym 'a prog = "heap \<Rightarrow> (error + 'a) \<times> heap"

definition returnH :: "'a \<Rightarrow> 'a prog" where
  "returnH x = (\<lambda>h. (Inr x, h))"

definition throwH :: "error \<Rightarrow> 'a prog" where
  "throwH e = (\<lambda>h. (Inl e, h))"

definition bindH :: "'a prog \<Rightarrow> ('a \<Rightarrow> 'b prog) \<Rightarrow> 'b prog" where
  "bindH m f = (\<lambda>h. case m h of (Inl e, h') \<Rightarrow> (Inl e, h') | (Inr x, h') \<Rightarrow> f x h')"

text \<open>
  \<^verbatim>\<open>pseudoAgentFrom\<close> allocates the clone. The values are numbers here, so the clone
  shares nothing with its source; \<open>pseudoAgentFrom_ref\<close> below is the same function on
  stores that hold arrays, which the clone shares.
\<close>

definition pseudoAgentFrom :: "ref \<Rightarrow> ref prog" where
  "pseudoAgentFrom store =
     (\<lambda>h. case copy_store (h ! store) of
             (Inl e, agent) \<Rightarrow> (Inl e, h @ [agent])
           | (Inr u, agent) \<Rightarrow> (Inr (length h), h @ [agent]))"

record planner =
  actions :: "action list"
  ambientActions :: "action list"

definition newPlanner :: planner where
  "newPlanner = \<lparr> actions = [], ambientActions = [] \<rparr>"

text \<open>
  \<^verbatim>\<open>setActions\<close> sorts a copy of the list with the comparator \<^verbatim>\<open>a.cost - b.cost\<close>.
  \<^verbatim>\<open>Array.prototype.sort\<close> is stable and this comparator is a total preorder, so the
  result is the stable sort by cost.
\<close>

definition setActions :: "action list \<Rightarrow> planner \<Rightarrow> planner" where
  "setActions acts P = P \<lparr> actions := sort_key cost acts \<rparr>"

definition setAmbientActions :: "action list \<Rightarrow> planner \<Rightarrow> planner" where
  "setAmbientActions acts P = P \<lparr> ambientActions := acts \<rparr>"

subsection \<open>simulate\_in\_place\<close>

fun applyAmbient ::
  "action list \<Rightarrow> num store \<Rightarrow> num store \<Rightarrow> (error + unit) \<times> num store \<times> num store"
where
  "applyAmbient [] agent world = (Inr (), agent, world)"
| "applyAmbient (a # as) agent world =
     (case applyAction agent world a of
        (Inl e, agent', world') \<Rightarrow> (Inl e, agent', world')
      | (Inr u, agent', world') \<Rightarrow> applyAmbient as agent' world')"

fun simulate_in_place ::
  "planner \<Rightarrow> action list \<Rightarrow> num store \<Rightarrow> num store \<Rightarrow> (error + bool) \<times> num store \<times> num store"
where
  "simulate_in_place P [] agent world = (Inr True, agent, world)"
| "simulate_in_place P (act # rest) agent world =
     (case applyAmbient (ambientActions P) agent world of
        (Inl e, agent1, world1) \<Rightarrow> (Inl e, agent1, world1)
      | (Inr u, agent1, world1) \<Rightarrow>
         (case canPerform act agent1 world1 of
            Inl e \<Rightarrow> (Inl e, agent1, world1)
          | Inr ok \<Rightarrow>
             if \<not> ok then (Inr False, agent1, world1)
             else (case applyAction agent1 world1 act of
                     (Inl e, agent2, world2) \<Rightarrow> (Inl e, agent2, world2)
                   | (Inr u, agent2, world2) \<Rightarrow> simulate_in_place P rest agent2 world2)))"

text \<open>
  The planner only ever runs \<^verbatim>\<open>simulate_in_place\<close> on two clones it has just
  allocated: the call reads the two objects, runs, and leaves the new contents in them.
\<close>

definition simulate_in_place_at :: "planner \<Rightarrow> action list \<Rightarrow> ref \<Rightarrow> ref \<Rightarrow> bool prog" where
  "simulate_in_place_at P plan agent world =
     (\<lambda>h. case simulate_in_place P plan (h ! agent) (h ! world) of
             (r, agent', world') \<Rightarrow> (r, h[agent := agent', world := world']))"

definition canPerform_at :: "action \<Rightarrow> ref \<Rightarrow> ref \<Rightarrow> bool prog" where
  "canPerform_at act agent world = (\<lambda>h. (canPerform act (h ! agent) (h ! world), h))"

definition goalReached_at :: "goal \<Rightarrow> ref \<Rightarrow> ref \<Rightarrow> bool prog" where
  "goalReached_at g agent world = (\<lambda>h. (goalReached g (h ! agent) (h ! world), h))"

subsection \<open>plan\_introspection\<close>

text \<open>
  The filter \<^verbatim>\<open>plan[plan.length - 1] != act\<close> compares references; on the empty plan
  the left side is \<^verbatim>\<open>undefined\<close> and every action passes.
\<close>

definition notLast :: "action list \<Rightarrow> action \<Rightarrow> bool" where
  "notLast plan act = (case plan of [] \<Rightarrow> True | _ \<Rightarrow> ident (last plan) \<noteq> ident act)"

fun candidates ::
  "planner \<Rightarrow> action list \<Rightarrow> ref \<Rightarrow> ref \<Rightarrow> action list \<Rightarrow> action list list
     \<Rightarrow> action list list prog"
where
  "candidates P plan agent world [] plans = returnH plans"
| "candidates P plan agent world (act # rest) plans =
     bindH (pseudoAgentFrom agent) (\<lambda>simAgent.
     bindH (pseudoAgentFrom world) (\<lambda>simWorld.
     bindH (simulate_in_place_at P plan simAgent simWorld) (\<lambda>ran.
     bindH (canPerform_at act simAgent simWorld) (\<lambda>ok.
       if \<not> ok then candidates P plan agent world rest plans
       else candidates P plan agent world rest (plans @ [plan @ [act]])))))"

text \<open>
  An entry of \<^verbatim>\<open>introspected\<close> holds a leaf plan and the two clones it was replayed
  on. Nothing writes to these clones after the entry is pushed, so the entry keeps their
  contents.
\<close>

type_synonym entry = "action list \<times> num store \<times> num store"

definition readStores :: "ref \<Rightarrow> ref \<Rightarrow> (num store \<times> num store) prog" where
  "readStores agent world = (\<lambda>h. (Inr (h ! agent, h ! world), h))"

fun replayAll ::
  "planner \<Rightarrow> ref \<Rightarrow> ref \<Rightarrow> action list list \<Rightarrow> entry list \<Rightarrow> entry list prog"
where
  "replayAll P agent world [] introspected = returnH introspected"
| "replayAll P agent world (introsPlan # rest) introspected =
     bindH (pseudoAgentFrom agent) (\<lambda>simAgent.
     bindH (pseudoAgentFrom world) (\<lambda>simWorld.
     bindH (simulate_in_place_at P introsPlan simAgent simWorld) (\<lambda>ran.
     bindH (readStores simAgent simWorld) (\<lambda>(a, w).
       replayAll P agent world rest (introspected @ [(introsPlan, a, w)])))))"

text \<open>
  The loop \<^verbatim>\<open>for (;;) { const p = plans.pop()!; if (!p) break; ... }\<close> takes the
  candidates from the end of the array: \<open>gather\<close> receives them as a stack, top first.
  Its first argument is the recursive call of \<^verbatim>\<open>plan_introspection\<close>.
\<close>

fun gather ::
  "(action list \<Rightarrow> action list list prog) \<Rightarrow> planner \<Rightarrow> ref \<Rightarrow> ref \<Rightarrow> action list list
     \<Rightarrow> entry list \<Rightarrow> entry list prog"
where
  "gather recur P agent world [] introspected = returnH introspected"
| "gather recur P agent world (p # stack) introspected =
     bindH (recur p) (\<lambda>introsPls.
     bindH (replayAll P agent world introsPls introspected) (\<lambda>introspected'.
       gather recur P agent world stack introspected'))"

text \<open>
  \<^verbatim>\<open>Array.prototype.sort\<close> with a comparator. ECMAScript fixes the order it leaves
  only for a comparator that is a consistent comparison function, and leaves it to the
  engine otherwise. \<open>array_sort\<close> is an insertion sort. It is one sort that does what
  ECMAScript requires; on a comparator that is not consistent, another engine can leave
  another order (V8 calls the comparator on the later and the earlier element, in this
  order, and moves on a negative result). What is proved of \<open>plan_introspection\<close> below
  uses of the sort only that it rearranges the list; the order of the leaves after the
  sort is the subject of \<open>plan_introspection_with\<close>, which takes the sort of the engine
  as a parameter. An exception of the comparator ends the sort.
\<close>

fun insertBy :: "('a \<Rightarrow> 'a \<Rightarrow> error + int) \<Rightarrow> 'a \<Rightarrow> 'a list \<Rightarrow> error + 'a list" where
  "insertBy c x [] = Inr [x]"
| "insertBy c x (y # ys) =
     (case c x y of
        Inl e \<Rightarrow> Inl e
      | Inr r \<Rightarrow>
          if r \<le> 0 then Inr (x # y # ys)
          else (case insertBy c x ys of Inl e \<Rightarrow> Inl e | Inr zs \<Rightarrow> Inr (y # zs)))"

fun array_sort :: "('a \<Rightarrow> 'a \<Rightarrow> error + int) \<Rightarrow> 'a list \<Rightarrow> error + 'a list" where
  "array_sort c [] = Inr []"
| "array_sort c (x # xs) =
     (case array_sort c xs of Inl e \<Rightarrow> Inl e | Inr ys \<Rightarrow> insertBy c x ys)"

definition cmpEntry :: "goal \<Rightarrow> entry \<Rightarrow> entry \<Rightarrow> error + int" where
  "cmpEntry g A B =
     (case A of (planA, agentA, worldA) \<Rightarrow>
      case B of (planB, agentB, worldB) \<Rightarrow>
      (case goalCmp g agentA worldA agentB worldB of
         Inl e \<Rightarrow> Inl e
       | Inr c \<Rightarrow> Inr (if c = GT then - 1 else if c = LT then 1
                        else planCost planA - planCost planB)))"

definition rankAndCut :: "goal \<Rightarrow> entry list \<Rightarrow> action list list prog" where
  "rankAndCut g introspected =
     (\<lambda>h. case array_sort (cmpEntry g) introspected of
             Inl e \<Rightarrow> (Inl e, h)
           | Inr ranked \<Rightarrow> (Inr (map fst (take 3 ranked)), h))"

text \<open>
  The depth is a natural number: \<^verbatim>\<open>introspect\<close> is the only caller, it passes its
  default depth 5, and every level passes \<^verbatim>\<open>depth - 1\<close>, so the test
  \<^verbatim>\<open>depth <= 0\<close> is the test for zero.
\<close>

fun plan_introspection ::
  "planner \<Rightarrow> goal \<Rightarrow> action list \<Rightarrow> ref \<Rightarrow> ref \<Rightarrow> nat \<Rightarrow> action list list prog"
where
  "plan_introspection P g plan agent world 0 = returnH [plan]"
| "plan_introspection P g plan agent world (Suc d) =
     bindH (candidates P plan agent world (filter (notLast plan) (actions P)) []) (\<lambda>plans.
     bindH (gather (\<lambda>p. plan_introspection P g p agent world d) P agent world (rev plans) [])
       (\<lambda>introspected. rankAndCut g introspected))"

subsection \<open>introspect, simulate, plan\<close>

text \<open>
  \<^verbatim>\<open>newPlans[0]\<close> of an empty array is \<^verbatim>\<open>undefined\<close>, and reading
  \<^verbatim>\<open>.length\<close> of it raises a TypeError.
\<close>

definition introspect ::
  "planner \<Rightarrow> goal \<Rightarrow> action list \<Rightarrow> ref \<Rightarrow> ref \<Rightarrow> nat \<Rightarrow> action option prog"
where
  "introspect P g plan agent world depth =
     (if depth \<le> 0 then returnH None
      else bindH (plan_introspection P g plan agent world depth) (\<lambda>newPlans.
             case newPlans of
               [] \<Rightarrow> throwH TypeError
             | newPlan # others \<Rightarrow>
                 if length newPlan \<le> length plan then returnH None
                 else returnH (Some (newPlan ! length plan))))"

definition simulate :: "planner \<Rightarrow> goal \<Rightarrow> action list \<Rightarrow> ref \<Rightarrow> ref \<Rightarrow> bool prog" where
  "simulate P g plan agent world =
     bindH (pseudoAgentFrom agent) (\<lambda>fAgent.
     bindH (pseudoAgentFrom world) (\<lambda>fWorld.
     bindH (simulate_in_place_at P plan fAgent fWorld) (\<lambda>ok.
       if \<not> ok then returnH False else goalReached_at g fAgent fWorld)))"

fun plan_loop ::
  "planner \<Rightarrow> goal \<Rightarrow> ref \<Rightarrow> ref \<Rightarrow> nat \<Rightarrow> bool \<Rightarrow> action list \<Rightarrow> action list option prog"
where
  "plan_loop P g agent world maxIterations planDone actionsPlan =
     (if \<not> planDone \<and> maxIterations > 0 then
        bindH (introspect P g actionsPlan agent world 5) (\<lambda>doOpt.
          case doOpt of
            None \<Rightarrow> returnH None
          | Some op \<Rightarrow>
              bindH (canPerform_at op agent world) (\<lambda>ok.
                if ok then
                  bindH (simulate P g (actionsPlan @ [op]) agent world) (\<lambda>reached.
                    plan_loop P g agent world (maxIterations - 1) reached (actionsPlan @ [op]))
                else plan_loop P g agent world (maxIterations - 1) planDone (actionsPlan @ [op])))
      else returnH (Some actionsPlan))"

declare plan_loop.simps [simp del]

definition plan :: "planner \<Rightarrow> goal \<Rightarrow> ref \<Rightarrow> ref \<Rightarrow> action list option prog" where
  "plan P g agent world =
     (if length (expectations g) = 0 then returnH (Some [NOOP])
      else plan_loop P g agent world 50 False [])"


section \<open>ExpectBuilder and the demo world of createWorld\<close>

definition bindE :: "error + 'a \<Rightarrow> ('a \<Rightarrow> error + 'b) \<Rightarrow> error + 'b" where
  "bindE r f = (case r of Inl e \<Rightarrow> Inl e | Inr x \<Rightarrow> f x)"

definition getNum :: "string \<Rightarrow> num store \<Rightarrow> error + num" where
  "getNum key store = unwrap (store_get key store)"

definition buildExpects ::
  "string \<Rightarrow> target \<Rightarrow> string \<Rightarrow> (num store \<Rightarrow> num store \<Rightarrow> error + bool)
     \<Rightarrow> (concept \<Rightarrow> concept \<Rightarrow> error + comparison) \<Rightarrow> expects"
where
  "buildExpects name tgt prop checker comparer =
     \<lparr> ex_name = name, ex_target = tgt, ex_property = prop, ex_compare = comparer,
       ex_check =
         (if tgt = Agent
          then (\<lambda>a w. if \<not> is_some (store_get prop a) then Inr False else checker a w)
          else (\<lambda>a w. if \<not> is_some (store_get prop w) then Inr False else checker a w)) \<rparr>"

text \<open>The checker and the comparer an \<^verbatim>\<open>ExpectBuilder\<close> starts with.\<close>

definition defaultChecker :: "num store \<Rightarrow> num store \<Rightarrow> error + bool" where
  "defaultChecker a w = Inr True"

definition defaultComparer :: "concept \<Rightarrow> concept \<Rightarrow> error + comparison" where
  "defaultComparer a b = Inr EQ"

definition fireHealthy :: expects where
  "fireHealthy = buildExpects ''fire-healthy'' World ''fire''
     (\<lambda>a world. bindE (getNum ''fire'' world) (\<lambda>fire. Inr (fire \<ge> 69)))
     (\<lambda>a b.
        bindE (getNum ''fire'' (snd a)) (\<lambda>fireA.
        bindE (getNum ''fire'' (snd b)) (\<lambda>fireB.
        bindE (getNum ''wood'' (fst a)) (\<lambda>woodA.
        bindE (getNum ''wood'' (fst b)) (\<lambda>woodB.
          Inr (if fireA < 69 \<and> 69 > fireB \<and> numCmp fireA fireB \<noteq> EQ then numCmp fireA fireB
               else if fireA < 69 \<and> 69 > fireB \<and> woodA < 2 \<and> woodB < 2 then EQ
               else if woodA > woodB then GT
               else if woodB > woodA then LT
               else EQ))))))"

definition haveWood :: expects where
  "haveWood = buildExpects ''have-wood'' Agent ''wood''
     (\<lambda>agent w. bindE (getNum ''wood'' agent) (\<lambda>wood. Inr (wood \<ge> 5 \<and> wood \<le> 10)))
     (\<lambda>a b.
        bindE (getNum ''wood'' (fst a)) (\<lambda>woodA.
        bindE (getNum ''wood'' (fst b)) (\<lambda>woodB.
          Inr (if woodA < 5 \<and> 5 > woodB then numCmp woodA woodB
               else if woodA > 10 \<and> woodB \<le> 10 then LT
               else if woodA \<le> 10 \<and> woodB > 10 then GT
               else if woodA > 10 \<and> 10 < woodB then numCmp woodB woodA
               else EQ))))"

definition dontStarve :: expects where
  "dontStarve = buildExpects ''dont-starve'' Agent ''hunger''
     (\<lambda>agent w. bindE (getNum ''hunger'' agent) (\<lambda>hunger. Inr (hunger < 50)))
     (\<lambda>a b.
        bindE (getNum ''hunger'' (fst a)) (\<lambda>hungerA.
        bindE (getNum ''hunger'' (fst b)) (\<lambda>hungerB.
          Inr (if hungerA < 10 \<and> hungerB < 10 then EQ else numCmp hungerB hungerA))))"

definition surviveGoal :: goal where
  "surviveGoal = \<lparr> goal_name = ''survive'', expectations = [fireHealthy, haveWood, dontStarve] \<rparr>"

definition getWood :: action where
  "getWood = \<lparr> ident = 1, act_name = ''get_wood'',
      canPerform = (\<lambda>agent world.
         if \<not> is_some (store_get ''wood'' world) then Inr False
         else bindE (getNum ''wood'' world) (\<lambda>wood. Inr (wood \<ge> 2))),
      effects = [changeAmtEffect (Flat (- 2)) World ''wood'',
                 changeAmtEffect (Flat 2) Agent ''wood'',
                 changeAmtEffect (Flat 4) Agent ''hunger''],
      cost = 4 \<rparr>"

definition addWoodToFire :: action where
  "addWoodToFire = \<lparr> ident = 2, act_name = ''feed_fire'',
      canPerform = (\<lambda>agent world.
         if \<not> is_some (store_get ''wood'' agent) then Inr False
         else if \<not> is_some (store_get ''wood'' world) then Inr False
         else bindE (getNum ''wood'' agent) (\<lambda>wood. Inr (wood \<ge> 2))),
      effects = [changeAmtEffect (Flat (- 2)) Agent ''wood'',
                 changeAmtEffect (Flat 10) World ''fire'',
                 changeAmtEffect (Flat 2) Agent ''hunger''],
      cost = 2 \<rparr>"

definition fireDecay :: action where
  "fireDecay = \<lparr> ident = 3, act_name = ''fire_decay'',
      canPerform = (\<lambda>agent world. bindE (getNum ''fire'' world) (\<lambda>fire. Inr (fire > 0))),
      effects = [changeAmtEffect (Flat (- 1)) World ''fire''],
      cost = 0 \<rparr>"

definition eatFood :: action where
  "eatFood = \<lparr> ident = 4, act_name = ''eat_food'',
      canPerform = (\<lambda>agent world.
         bindE (getNum ''food'' agent) (\<lambda>food.
         bindE (getNum ''hunger'' agent) (\<lambda>hunger. Inr (food > 0 \<and> hunger > 2)))),
      effects = [changeAmtEffect (Flat (- 1)) Agent ''food'',
                 changeAmtEffect (Clamped (- 4) 0 100) Agent ''hunger''],
      cost = 1 \<rparr>"

text \<open>
  The planner and the two stores of \<^verbatim>\<open>createWorld\<close>. The agent's entry
  \<^verbatim>\<open>pos\<close>, an array that no action, effect or expectation reads, is left out.
\<close>

definition demoPlanner :: planner where
  "demoPlanner =
     setAmbientActions [fireDecay] (setActions [NOOP, getWood, eatFood, addWoodToFire] newPlanner)"

definition demoAgent :: "num store" where
  "demoAgent = [(''wood'', 0), (''food'', 20), (''hunger'', 0)]"

definition demoWorld :: "num store" where
  "demoWorld = [(''fire'', 9), (''wood'', 50)]"


section \<open>Reasoning about computations on the heap\<close>

text \<open>
  A value or exception that does not touch the heap, as a computation.
\<close>

definition liftE :: "error + 'a \<Rightarrow> 'a prog" where
  "liftE r = (\<lambda>h. (r, h))"

text \<open>
  Three places of the planner clone the two stores and replay a plan on the clones.
  \<open>replayOn\<close> is that sequence of statements with the final contents of the clones as
  its value, and \<open>replayed\<close> is the same on the contents of the two source stores.
\<close>

definition replayOn ::
  "planner \<Rightarrow> action list \<Rightarrow> ref \<Rightarrow> ref \<Rightarrow> (bool \<times> num store \<times> num store) prog" where
  "replayOn P pl agent world =
     bindH (pseudoAgentFrom agent) (\<lambda>simAgent.
     bindH (pseudoAgentFrom world) (\<lambda>simWorld.
     bindH (simulate_in_place_at P pl simAgent simWorld) (\<lambda>fin.
     bindH (readStores simAgent simWorld) (\<lambda>(a, w). returnH (fin, a, w)))))"

definition replayed ::
  "planner \<Rightarrow> action list \<Rightarrow> num store \<Rightarrow> num store \<Rightarrow> error + bool \<times> num store \<times> num store"
where
  "replayed P pl A W =
     (case copy_store A of
        (Inl e, simAgent) \<Rightarrow> Inl e
      | (Inr u, simAgent) \<Rightarrow>
         (case copy_store W of
            (Inl e, simWorld) \<Rightarrow> Inl e
          | (Inr u, simWorld) \<Rightarrow>
             (case simulate_in_place P pl simAgent simWorld of
                (Inl e, a, w) \<Rightarrow> Inl e
              | (Inr fin, a, w) \<Rightarrow> Inr (fin, a, w))))"

text \<open>
  \<open>keeps m\<close>: the computation only allocates, every object of the heap it started from is
  left as it was. \<open>holds agent world A W h\<close>: the two references are allocated in \<open>h\<close> and
  the stores have the contents \<open>A\<close> and \<open>W\<close>. \<open>indep agent world m\<close>: the outcome of \<open>m\<close>
  depends on the heap through the contents of these two stores only.
\<close>

definition keeps :: "'a prog \<Rightarrow> bool" where
  "keeps m = (\<forall>h. \<exists>xs. snd (m h) = h @ xs)"

definition holds :: "ref \<Rightarrow> ref \<Rightarrow> num store \<Rightarrow> num store \<Rightarrow> heap \<Rightarrow> bool" where
  "holds agent world A W h =
     (agent < length h \<and> world < length h \<and> h ! agent = A \<and> h ! world = W)"

definition indep :: "ref \<Rightarrow> ref \<Rightarrow> 'a prog \<Rightarrow> bool" where
  "indep agent world m =
     (\<forall>A W h1 h2. holds agent world A W h1 \<and> holds agent world A W h2 \<longrightarrow>
        fst (m h1) = fst (m h2) \<and> holds agent world A W (snd (m h1)))"


text \<open>
  \<open>ensures agent world A W m Q\<close>: started on a heap where the two stores have the
  contents \<open>A\<close> and \<open>W\<close>, a run of \<open>m\<close> that returns a value leaves these contents in
  place and returns a value that satisfies \<open>Q\<close>.
\<close>

definition ensures :: "ref \<Rightarrow> ref \<Rightarrow> num store \<Rightarrow> num store \<Rightarrow> 'a prog \<Rightarrow> ('a \<Rightarrow> bool) \<Rightarrow> bool" where
  "ensures agent world A W m Q =
     (\<forall>h x h'. holds agent world A W h \<and> m h = (Inr x, h') \<longrightarrow> holds agent world A W h' \<and> Q x)"

text \<open>
  An entry is the replay of its plan when its two stores are what \<open>replayed\<close> gives for
  the plan, from clones of the stores with contents \<open>A\<close> and \<open>W\<close>.
\<close>

definition isReplay :: "planner \<Rightarrow> num store \<Rightarrow> num store \<Rightarrow> entry \<Rightarrow> bool" where
  "isReplay P A W e = (case e of (q, A', W') \<Rightarrow>
      (case replayed P q A W of Inl err \<Rightarrow> False | Inr (fin, A'', W'') \<Rightarrow> A'' = A' \<and> W'' = W'))"

text \<open>\<open>extends P d p q\<close>: the plan \<open>q\<close> is \<open>p\<close> followed by \<open>d\<close> registered actions.\<close>

definition extends :: "planner \<Rightarrow> nat \<Rightarrow> action list \<Rightarrow> action list \<Rightarrow> bool" where
  "extends P d p q = (length q = length p + d \<and> take (length p) q = p
                      \<and> set (drop (length p) q) \<subseteq> set (actions P))"

text \<open>
  The first two phases of \<^verbatim>\<open>plan_introspection\<close> at depth \<open>d + 1\<close>: the candidates,
  then the leaves of the recursive calls, each replayed on fresh clones.
\<close>

definition leavesOf :: "planner \<Rightarrow> goal \<Rightarrow> action list \<Rightarrow> ref \<Rightarrow> ref \<Rightarrow> nat \<Rightarrow> entry list prog" where
  "leavesOf P g pl agent world d =
     bindH (candidates P pl agent world (filter (notLast pl) (actions P)) []) (\<lambda>plans.
       gather (\<lambda>p. plan_introspection P g p agent world d) P agent world (rev plans) [])"


subsection \<open>The sort of the engine\<close>







text \<open>
  \<^verbatim>\<open>plan_introspection\<close> with the sort of the engine as a parameter. \<open>plan_introspection\<close>
  above is its instance at the insertion sort \<open>array_sort\<close>.
\<close>

type_synonym sorter = "(entry \<Rightarrow> entry \<Rightarrow> error + int) \<Rightarrow> entry list \<Rightarrow> error + entry list"

definition rankAndCut_with :: "sorter \<Rightarrow> goal \<Rightarrow> entry list \<Rightarrow> action list list prog" where
  "rankAndCut_with srt g introspected =
     (\<lambda>h. case srt (cmpEntry g) introspected of
             Inl e \<Rightarrow> (Inl e, h)
           | Inr ranked \<Rightarrow> (Inr (map fst (take 3 ranked)), h))"

fun plan_introspection_with ::
  "sorter \<Rightarrow> planner \<Rightarrow> goal \<Rightarrow> action list \<Rightarrow> ref \<Rightarrow> ref \<Rightarrow> nat \<Rightarrow> action list list prog"
where
  "plan_introspection_with srt P g pl agent world 0 = returnH [pl]"
| "plan_introspection_with srt P g pl agent world (Suc d) =
     bindH (candidates P pl agent world (filter (notLast pl) (actions P)) []) (\<lambda>plans.
     bindH (gather (\<lambda>p. plan_introspection_with srt P g p agent world d) P agent world
              (rev plans) [])
       (\<lambda>introspected. rankAndCut_with srt g introspected))"

text \<open>
  The leaves that a call at depth \<open>d + 1\<close> hands to the sort: the candidates, then the
  leaves of the recursive calls, each replayed on fresh clones.
\<close>

definition leavesOf_with ::
  "sorter \<Rightarrow> planner \<Rightarrow> goal \<Rightarrow> action list \<Rightarrow> ref \<Rightarrow> ref \<Rightarrow> nat \<Rightarrow> entry list prog" where
  "leavesOf_with srt P g pl agent world d =
     bindH (candidates P pl agent world (filter (notLast pl) (actions P)) []) (\<lambda>plans.
       gather (\<lambda>p. plan_introspection_with srt P g p agent world d) P agent world (rev plans) [])"

subsection \<open>The ranking and the replay in the words of the specification\<close>

text \<open>
  The order of the specification: leaves are compared descending by \<^verbatim>\<open>goalCmp\<close> on the
  states they reach, and ties of \<^verbatim>\<open>goalCmp\<close> are broken by ascending \<^verbatim>\<open>planCost\<close>.
  \<open>outranks g x y\<close>: the leaf \<open>x\<close> is ranked strictly higher than the leaf \<open>y\<close>.
\<close>

definition outranks :: "goal \<Rightarrow> entry \<Rightarrow> entry \<Rightarrow> bool" where
  "outranks g x y =
     (case x of (planX, agentX, worldX) \<Rightarrow>
      case y of (planY, agentY, worldY) \<Rightarrow>
        goalCmp g agentX worldX agentY worldY = Inr GT
      \<or> (goalCmp g agentX worldX agentY worldY = Inr EQ \<and> planCost planX < planCost planY))"





text \<open>
  Some registered action has an effect whose \<^verbatim>\<open>check\<close> yields a concept that the
  comparer of an unmet expectation ranks \<open>GT\<close> against the current stores.
\<close>

definition effectRanksGT :: "planner \<Rightarrow> goal \<Rightarrow> num store \<Rightarrow> num store \<Rightarrow> bool" where
  "effectRanksGT P g agent world =
     list_ex (\<lambda>act. list_ex (\<lambda>fx.
        case fx_check fx agent world of
          Inr (Some c) \<Rightarrow>
            list_ex (\<lambda>e. ex_check e agent world = Inr False
                        \<and> ex_compare e c (agent, world) = Inr GT) (expectations g)
        | _ \<Rightarrow> False) (effects act)) (actions P)"

section \<open>Concrete inputs\<close>

text \<open>An expectation whose comparer always answers \<open>GT\<close>.\<close>

definition biased :: expects where
  "biased = \<lparr> ex_name = ''biased'', ex_target = Agent, ex_property = ''wood'',
              ex_compare = (\<lambda>a b. Inr GT), ex_check = (\<lambda>a w. Inr True) \<rparr>"

definition biasedGoal :: goal where
  "biasedGoal = \<lparr> goal_name = ''biased'', expectations = [biased] \<rparr>"

text \<open>The demo state after one \<^verbatim>\<open>get_wood\<close> with the fire decayed by one.\<close>

definition woodAgent :: "num store" where
  "woodAgent = [(''wood'', 2), (''food'', 20), (''hunger'', 4)]"

definition woodWorld :: "num store" where
  "woodWorld = [(''fire'', 8), (''wood'', 48)]"


text \<open>
  Four actions, each always performable, that set three scores of the agent, and a goal
  with one expectation per score that prefers the higher score.
\<close>

definition always :: "num store \<Rightarrow> num store \<Rightarrow> error + bool" where
  "always agent world = Inr True"

definition ballot :: "nat \<Rightarrow> num \<Rightarrow> num \<Rightarrow> num \<Rightarrow> action" where
  "ballot i x y z = \<lparr> ident = i, act_name = ''ballot'', canPerform = always,
      effects = [changeAmtEffect (Flat x) Agent ''x'', changeAmtEffect (Flat y) Agent ''y'',
                 changeAmtEffect (Flat z) Agent ''z''],
      cost = 1 \<rparr>"

definition higher :: "string \<Rightarrow> expects" where
  "higher prop = buildExpects (''more-'' @ prop) Agent prop
     (\<lambda>agent w. bindE (getNum prop agent) (\<lambda>v. Inr (v \<ge> 100)))
     (\<lambda>a b. bindE (getNum prop (fst a)) (\<lambda>va. bindE (getNum prop (fst b)) (\<lambda>vb. Inr (numCmp va vb))))"

definition electionGoal :: goal where
  "electionGoal = \<lparr> goal_name = ''election'', expectations = [higher ''x'', higher ''y'', higher ''z''] \<rparr>"

text \<open>A goal with the first of these expectations only: the higher \<open>x\<close>, the better.\<close>

definition rankingGoal :: goal where
  "rankingGoal = \<lparr> goal_name = ''ranking'', expectations = [higher ''x''] \<rparr>"

definition electionPlanner :: planner where
  "electionPlanner = setActions [ballot 1 4 1 2, ballot 2 3 4 1, ballot 3 2 3 4, ballot 4 1 2 3] newPlanner"

definition electionAgent :: "num store" where
  "electionAgent = [(''x'', 0), (''y'', 0), (''z'', 0)]"

text \<open>
  A goal built with the default comparer, reached by one \<^verbatim>\<open>step_up\<close>.
\<close>

definition stepUp :: action where
  "stepUp = \<lparr> ident = 5, act_name = ''step_up'', canPerform = always,
              effects = [changeAmtEffect (Flat 1) Agent ''x''], cost = 1 \<rparr>"

definition reachOne :: expects where
  "reachOne = buildExpects ''reach-one'' Agent ''x''
     (\<lambda>agent w. bindE (getNum ''x'' agent) (\<lambda>x. Inr (x \<ge> 1))) defaultComparer"

definition stepGoal :: goal where
  "stepGoal = \<lparr> goal_name = ''step'', expectations = [reachOne] \<rparr>"

definition stepPlanner :: planner where
  "stepPlanner = setActions [NOOP, stepUp] newPlanner"

definition stepAgent :: "num store" where
  "stepAgent = [(''x'', 0)]"

text \<open>The demo world after one tick of fire decay.\<close>

definition decayedWorld :: "num store" where
  "decayedWorld = [(''fire'', 8), (''wood'', 50)]"


section \<open>The planner on stores that hold mutable objects\<close>

text \<open>
  A store maps a key to any JavaScript value, and \<^verbatim>\<open>pseudoAgentFrom\<close> hands each
  value of the source store to \<^verbatim>\<open>put\<close> as it is: an array or an object is copied by
  reference, and the clone shares it with the store it was copied from. The demo agent
  holds such a value, \<^verbatim>\<open>pos: [0, 0]\<close>. The planner is modelled here a second time, with
  that sharing. A value is a number or the address of an array of numbers, and the state
  of the program holds the store objects allocated so far and the arrays.
\<close>

datatype val = Number num | Array nat

record machine =
  stores :: "val store list"
  arrays :: "num list list"

text \<open>
  A computation maps the state to its result, a value or the exception raised, and the
  new state. \<open>readM\<close> is a computation that only reads.
\<close>

type_synonym 'a run = "machine \<Rightarrow> (error + 'a) \<times> machine"



































subsection \<open>Concrete inputs\<close>











subsection \<open>Effects that stay within the two stores they are handed\<close>



text \<open>
  \<open>untouched s0 s\<close>: the stores of \<open>s0\<close> are the first stores of \<open>s\<close>, with the same
  entries, and the arrays are the same. \<open>tri s0 m Q\<close>: run from a state where \<open>s0\<close> is
  untouched, \<open>m\<close> ends in such a state, and a value it returns satisfies \<open>Q\<close>.
  \<open>registered P pl\<close>: the plan \<open>pl\<close> is made of registered actions.
\<close>

definition untouched :: "machine \<Rightarrow> machine \<Rightarrow> bool" where
  "untouched s0 s =
     (length (stores s0) \<le> length (stores s)
      \<and> take (length (stores s0)) (stores s) = stores s0
      \<and> arrays s = arrays s0)"

definition tri :: "machine \<Rightarrow> 'a run \<Rightarrow> ('a \<Rightarrow> bool) \<Rightarrow> bool" where
  "tri s0 m Q =
     (\<forall>s. untouched s0 s \<longrightarrow> untouched s0 (snd (m s)) \<and> (\<forall>x. fst (m s) = Inr x \<longrightarrow> Q x))"



section \<open>The store contract\<close>

lemma map_get_set: "map_get k (map_set k v m) = Some v"
  by (induction m) auto

lemma map_has_set: "map_has k (map_set k v m)"
  by (induction m) auto

lemma map_get_set_other: "k' \<noteq> k \<Longrightarrow> map_get k' (map_set k v m) = map_get k' m"
  by (induction m) auto

lemma map_has_set_other: "k' \<noteq> k \<Longrightarrow> map_has k' (map_set k v m) = map_has k' m"
  by (induction m) (auto split: if_splits)

text \<open>
  Claim C7. On a store without the key \<open>k\<close>, \<open>put k v\<close> returns true and \<open>get k\<close> then
  returns \<open>Some v\<close>; a second \<open>put k v2\<close> returns false and leaves the store as it is;
  \<open>set k v2\<close> returns false and leaves the store unchanged; \<open>get k\<close> returns \<open>None\<close>.
  On a store with the key \<open>k\<close>, \<open>set k v2\<close> returns true and \<open>get k\<close> then returns
  \<open>Some v2\<close>. \<open>get\<close> is a total function into the option type: it never raises.
\<close>

theorem store_contract:
  fixes m :: "'v store"
  shows "(\<not> store_has k m \<longrightarrow>
            fst (store_put k v m) = True
          \<and> store_get k (snd (store_put k v m)) = Some v
          \<and> store_put k v2 (snd (store_put k v m)) = (False, snd (store_put k v m))
          \<and> store_get k (snd (store_put k v2 (snd (store_put k v m)))) = Some v
          \<and> store_set k v2 m = (False, m)
          \<and> store_get k m = None)
       \<and> (store_has k m \<longrightarrow>
            fst (store_set k v2 m) = True
          \<and> store_get k (snd (store_set k v2 m)) = Some v2)"
  by (simp add: store_has_def store_put_def store_set_def store_get_def map_get_set map_has_set)

theorem store_contract_witness:
  "\<not> store_has ''wood'' (createPseudoAgent :: num store)
   \<and> store_put ''wood'' (5::num) createPseudoAgent = (True, [(''wood'', 5)])
   \<and> store_get ''wood'' [(''wood'', 5::num)] = Some 5
   \<and> store_put ''wood'' (7::num) [(''wood'', 5)] = (False, [(''wood'', 5)])
   \<and> store_has ''wood'' [(''wood'', 5::num)]
   \<and> store_set ''wood'' 7 [(''wood'', 5::num)] = (True, [(''wood'', 7)])
   \<and> store_get ''wood'' [(''wood'', 7::num)] = Some 7
   \<and> store_set ''food'' 7 [(''wood'', 5::num)] = (False, [(''wood'', 5)])
   \<and> store_get ''food'' [(''wood'', 5::num)] = None"
  using store_contract [of "''wood''" "createPseudoAgent :: num store" 5 7]
        store_contract [of "''wood''" "[(''wood'', 5::num)]" 5 7]
        store_contract [of "''food''" "[(''wood'', 5::num)]" 7 7]
  by (simp add: store_has_def store_put_def store_set_def store_get_def createPseudoAgent_def)

section \<open>Clamped effects\<close>

text \<open>
  Claim C8. For an effect built by \<open>changeAmtEffect\<close> from a triple \<open>(delta, lo, hi)\<close>, and
  stores whose target store holds the number \<open>v\<close> under the property, \<open>apply\<close> returns
  normally, the target store then holds \<open>min (max (v + delta) lo) hi\<close> under the property,
  every other property of the target store reads as before, and the other store is
  unchanged.
\<close>

theorem changeAmtEffect_clamps:
  assumes "store_get p (case on of Agent \<Rightarrow> agent | World \<Rightarrow> world) = Some v"
  shows "\<exists>agent' world'.
           fx_apply (changeAmtEffect (Clamped delta lo hi) on p) agent world
             = (Inr (), agent', world')
         \<and> store_get p (case on of Agent \<Rightarrow> agent' | World \<Rightarrow> world')
             = Some (min (max (v + delta) lo) hi)
         \<and> (\<forall>k. k \<noteq> p \<longrightarrow> store_get k agent' = store_get k agent
                          \<and> store_get k world' = store_get k world)
         \<and> (case on of Agent \<Rightarrow> world' = world | World \<Rightarrow> agent' = agent)"
  using assms
  by (cases on)
     (auto simp: changeAmtEffect_def changeAmt_apply_def updateStore_def unwrap_def
        store_get_def store_set_def amt_amount_def amt_min_def amt_max_def math_min_def
        math_max_def map_get_set map_has_set map_get_set_other map_has_set_other
        split: if_splits)

theorem changeAmtEffect_clamps_witness:
  "store_get ''hunger'' [(''food'', 20), (''hunger'', 2::num)] = Some 2
   \<and> fx_apply (changeAmtEffect (Clamped (- 4) 0 100) Agent ''hunger'')
        [(''food'', 20), (''hunger'', 2)] demoWorld
      = (Inr (), [(''food'', 20), (''hunger'', 0)], demoWorld)"
proof -
  have h: "store_get ''hunger''
             (case Agent of Agent \<Rightarrow> [(''food'', 20), (''hunger'', 2::num)] | World \<Rightarrow> demoWorld)
           = Some 2"
    by (simp add: store_get_def)
  show ?thesis
    using changeAmtEffect_clamps [OF h, of "- 4" 0 100]
    by (simp add: changeAmtEffect_def changeAmt_apply_def updateStore_def unwrap_def
          store_get_def store_set_def amt_amount_def amt_min_def amt_max_def math_min_def
          math_max_def)
qed

section \<open>goalCmp\<close>

lemma tally_counts:
  "map (\<lambda>e. ex_compare e A B) es = map Inr cs \<Longrightarrow>
   tally es A B x y = Inr (x + length (filter (\<lambda>c. c = GT) cs), y + length (filter (\<lambda>c. c = LT) cs))"
proof (induction es arbitrary: cs x y)
  case Nil
  then show ?case by simp
next
  case (Cons e es)
  then obtain c cs' where cs: "cs = c # cs'" by (cases cs) auto
  with Cons.prems have hd: "ex_compare e A B = Inr c"
    and tl: "map (\<lambda>e. ex_compare e A B) es = map Inr cs'" by auto
  show ?case using Cons.IH [OF tl] hd cs by (cases c) auto
qed

text \<open>
  Claim C5. When the comparers of the expectations return \<open>cs\<close> on the two pairs of stores,
  \<open>goalCmp\<close> returns \<open>GT\<close> exactly when \<open>cs\<close> has more \<open>GT\<close> than \<open>LT\<close>, \<open>LT\<close> exactly
  when it has more \<open>LT\<close> than \<open>GT\<close>, and \<open>EQ\<close> exactly when it has as many of both: every
  expectation counts for one point at most.
\<close>

theorem goalCmp_majority:
  assumes "map (\<lambda>e. ex_compare e (agentA, worldA) (agentB, worldB)) (expectations g) = map Inr cs"
  shows "\<exists>r. goalCmp g agentA worldA agentB worldB = Inr r
           \<and> (r = GT \<longleftrightarrow> length (filter (\<lambda>c. c = GT) cs) > length (filter (\<lambda>c. c = LT) cs))
           \<and> (r = LT \<longleftrightarrow> length (filter (\<lambda>c. c = LT) cs) > length (filter (\<lambda>c. c = GT) cs))
           \<and> (r = EQ \<longleftrightarrow> length (filter (\<lambda>c. c = GT) cs) = length (filter (\<lambda>c. c = LT) cs))"
  using tally_counts [OF assms, of 0 0]
  by (auto simp: goalCmp_def verdict_def)

theorem goalCmp_majority_witness:
  "map (\<lambda>e. ex_compare e (woodAgent, woodWorld) (demoAgent, demoWorld)) (expectations surviveGoal)
     = map Inr [LT, GT, EQ]
   \<and> goalCmp surviveGoal woodAgent woodWorld demoAgent demoWorld = Inr EQ"
proof -
  have h: "map (\<lambda>e. ex_compare e (woodAgent, woodWorld) (demoAgent, demoWorld))
             (expectations surviveGoal) = map Inr [LT, GT, EQ]"
    by (simp add: surviveGoal_def fireHealthy_def haveWood_def dontStarve_def buildExpects_def
          bindE_def getNum_def unwrap_def store_get_def numCmp_def woodAgent_def woodWorld_def
          demoAgent_def demoWorld_def)
  show ?thesis using h goalCmp_majority [OF h] by auto
qed

lemma tally_swap:
  assumes "\<forall>e \<in> set es. ex_compare e B A = map_sum id invert (ex_compare e A B)"
  shows "tally es B A y x = map_sum id prod.swap (tally es A B x y)"
  using assms
proof (induction es arbitrary: x y)
  case Nil
  then show ?case by simp
next
  case (Cons e es)
  show ?case
  proof (cases "ex_compare e A B")
    case (Inl err)
    with Cons.prems show ?thesis by simp
  next
    case (Inr c)
    with Cons.prems have "ex_compare e B A = Inr (invert c)" by simp
    with Inr Cons show ?thesis by (cases c) (simp_all add: invert_def)
  qed
qed

lemma verdict_swap: "verdict y x = invert (verdict x y)"
  by (simp add: verdict_def invert_def)

text \<open>
  Claim C4, as amended. For a goal whose expectations all have an antisymmetric comparer
  (comparing \<open>B\<close> with \<open>A\<close> gives the inverse of comparing \<open>A\<close> with \<open>B\<close>, and raises when
  that raises), \<open>goalCmp\<close> of \<open>B\<close> against \<open>A\<close> is the inverse of \<open>goalCmp\<close> of \<open>A\<close>
  against \<open>B\<close>, and \<open>goalCmp\<close> of a state against itself, when it returns, returns \<open>EQ\<close>.
\<close>

theorem goalCmp_antisym:
  assumes "\<forall>e \<in> set (expectations g). \<forall>A B. ex_compare e B A = map_sum id invert (ex_compare e A B)"
  shows "goalCmp g agentB worldB agentA worldA = map_sum id invert (goalCmp g agentA worldA agentB worldB)
       \<and> (\<forall>c. goalCmp g agentA worldA agentA worldA = Inr c \<longrightarrow> c = EQ)"
proof -
  have anti: "goalCmp g b1 b2 a1 a2 = map_sum id invert (goalCmp g a1 a2 b1 b2)" for a1 a2 b1 b2
  proof -
    have "\<forall>e \<in> set (expectations g).
            ex_compare e (b1, b2) (a1, a2) = map_sum id invert (ex_compare e (a1, a2) (b1, b2))"
      using assms by blast
    then have sw: "tally (expectations g) (b1, b2) (a1, a2) 0 0
                 = map_sum id prod.swap (tally (expectations g) (a1, a2) (b1, b2) 0 0)"
      by (rule tally_swap)
    show ?thesis
      by (cases "tally (expectations g) (a1, a2) (b1, b2) 0 0")
         (auto simp: goalCmp_def sw verdict_def invert_def)
  qed
  have "c = EQ" if "goalCmp g agentA worldA agentA worldA = Inr c" for c
    using anti [of agentA worldA agentA worldA] that by (cases c) (simp_all add: invert_def)
  with anti show ?thesis by blast
qed

lemma getNum_cases: "getNum k s = Inl UnwrapNone \<or> (\<exists>v. getNum k s = Inr v)"
  by (cases "store_get k s") (simp_all add: getNum_def unwrap_def)

lemma demo_antisym:
  "\<forall>e \<in> set (expectations surviveGoal). \<forall>A B. ex_compare e B A = map_sum id invert (ex_compare e A B)"
proof -
  have 1: "ex_compare fireHealthy B A = map_sum id invert (ex_compare fireHealthy A B)" for A B
    using getNum_cases [of "''fire''" "snd A"] getNum_cases [of "''fire''" "snd B"]
          getNum_cases [of "''wood''" "fst A"] getNum_cases [of "''wood''" "fst B"]
    by (auto simp: fireHealthy_def buildExpects_def bindE_def numCmp_def invert_def)
  have 2: "ex_compare haveWood B A = map_sum id invert (ex_compare haveWood A B)" for A B
    using getNum_cases [of "''wood''" "fst A"] getNum_cases [of "''wood''" "fst B"]
    by (auto simp: haveWood_def buildExpects_def bindE_def numCmp_def invert_def)
  have 3: "ex_compare dontStarve B A = map_sum id invert (ex_compare dontStarve A B)" for A B
    using getNum_cases [of "''hunger''" "fst A"] getNum_cases [of "''hunger''" "fst B"]
    by (auto simp: dontStarve_def buildExpects_def bindE_def numCmp_def invert_def)
  show ?thesis
  proof (intro ballI allI)
    fix e A B
    assume "e \<in> set (expectations surviveGoal)"
    then have "e = fireHealthy \<or> e = haveWood \<or> e = dontStarve"
      by (simp add: surviveGoal_def)
    then show "ex_compare e B A = map_sum id invert (ex_compare e A B)"
      using 1 [of B A] 2 [of B A] 3 [of B A] by blast
  qed
qed


theorem goalCmp_antisym_witness:
  "goalCmp surviveGoal demoAgent demoWorld woodAgent woodWorld
     = map_sum id invert (goalCmp surviveGoal woodAgent woodWorld demoAgent demoWorld)
   \<and> goalCmp surviveGoal demoAgent demoWorld demoAgent demoWorld = Inr EQ"
proof -
  have eq: "goalCmp surviveGoal demoAgent demoWorld demoAgent demoWorld = Inr EQ"
    by (simp add: goalCmp_def verdict_def surviveGoal_def fireHealthy_def haveWood_def
          dontStarve_def buildExpects_def bindE_def getNum_def unwrap_def store_get_def
          numCmp_def demoAgent_def demoWorld_def)
  show ?thesis
    using eq goalCmp_antisym [OF demo_antisym, of demoAgent demoWorld woodAgent woodWorld]
    by blast
qed

text \<open>
  The claim as stated fails: with the comparer that always answers \<open>GT\<close>, a state
  compared with itself gives \<open>GT\<close>, which is not its own inverse.
\<close>

theorem goalCmp_antisym_counterexample:
  "goalCmp biasedGoal demoAgent demoWorld demoAgent demoWorld = Inr GT
   \<and> goalCmp biasedGoal demoAgent demoWorld demoAgent demoWorld
       \<noteq> map_sum id invert (goalCmp biasedGoal demoAgent demoWorld demoAgent demoWorld)"
  by (simp add: goalCmp_def biasedGoal_def biased_def verdict_def invert_def)


section \<open>On stores of numbers plan only allocates, and plan is deterministic\<close>

lemma bindH_Inl: "m h = (Inl e, h') \<Longrightarrow> bindH m f h = (Inl e, h')"
  by (simp add: bindH_def)
lemma bindH_returnH: "bindH (returnH x) f = f x"
  by (simp add: bindH_def returnH_def)

lemma keeps_returnH: "keeps (returnH x)" by (simp add: keeps_def returnH_def)
lemma keeps_throwH: "keeps (throwH e)" by (simp add: keeps_def throwH_def)
lemma keeps_liftE: "keeps (liftE r)" by (simp add: keeps_def liftE_def)
lemma keeps_bindH:
  assumes "keeps m" and "\<And>x. keeps (f x)"
  shows "keeps (bindH m f)"
  unfolding keeps_def
proof
  fix h
  obtain r h' where mh: "m h = (r, h')" by (cases "m h")
  from assms(1) mh obtain xs where h': "h' = h @ xs" by (auto simp: keeps_def dest: spec [of _ h])
  show "\<exists>ys. snd (bindH m f h) = h @ ys"
  proof (cases r)
    case (Inl e)
    with mh h' show ?thesis by (simp add: bindH_def)
  next
    case (Inr x)
    from assms(2) [of x] obtain ys where "snd (f x h') = h' @ ys" by (auto simp: keeps_def)
    with Inr mh h' show ?thesis by (simp add: bindH_def)
  qed
qed

lemma holds_append: "holds agent world A W h \<Longrightarrow> holds agent world A W (h @ xs)"
  by (simp add: holds_def nth_append)

lemma indep_returnH: "indep a w (returnH x)" by (simp add: indep_def returnH_def)
lemma indep_throwH: "indep a w (throwH e)" by (simp add: indep_def throwH_def)
lemma indep_liftE: "indep a w (liftE r)" by (simp add: indep_def liftE_def)
lemma indep_bindH:
  assumes "indep a w m" and "\<And>x. indep a w (f x)"
  shows "indep a w (bindH m f)"
  unfolding indep_def
proof (intro allI impI)
  fix A W h1 h2
  assume H: "holds a w A W h1 \<and> holds a w A W h2"
  obtain r1 k1 where m1: "m h1 = (r1, k1)" by (cases "m h1")
  obtain r2 k2 where m2: "m h2 = (r2, k2)" by (cases "m h2")
  from assms(1) H m1 m2 have eq: "r1 = r2" and k1: "holds a w A W k1"
    unfolding indep_def by (metis fst_conv snd_conv)+
  from assms(1) H m1 m2 have k2: "holds a w A W k2"
    unfolding indep_def by (metis fst_conv snd_conv)
  show "fst (bindH m f h1) = fst (bindH m f h2) \<and> holds a w A W (snd (bindH m f h1))"
  proof (cases r1)
    case (Inl e)
    with m1 m2 eq k1 show ?thesis by (auto simp: bindH_def)
  next
    case (Inr x)
    from assms(2) [of x] k1 k2 have "fst (f x k1) = fst (f x k2) \<and> holds a w A W (snd (f x k1))"
      unfolding indep_def by blast
    with Inr m1 m2 eq show ?thesis by (auto simp: bindH_def)
  qed
qed

lemma replayOn_run:
  assumes "holds agent world A W h"
  shows "fst (replayOn P pl agent world h) = replayed P pl A W"
    and "\<exists>xs. snd (replayOn P pl agent world h) = h @ xs"
  using assms
  by (auto simp: replayOn_def replayed_def bindH_def pseudoAgentFrom_def simulate_in_place_at_def
        readStores_def returnH_def holds_def nth_append list_update_append split: prod.splits sum.splits)

lemma keeps_replayOn: "keeps (replayOn P pl agent world)"
  by (auto simp: keeps_def replayOn_def bindH_def pseudoAgentFrom_def simulate_in_place_at_def
        readStores_def returnH_def nth_append list_update_append split: prod.splits sum.splits)

lemma indep_replayOn: "indep agent world (replayOn P pl agent world)"
  unfolding indep_def
  using replayOn_run [of agent world _ _ _ P pl] holds_append
  by metis

lemma keeps_split3: "(\<And>a b c. keeps (f a b c)) \<Longrightarrow> keeps (case x of (a, b, c) \<Rightarrow> f a b c)"
  by (cases x) auto
lemma indep_split3: "(\<And>a b c. indep r s (f a b c)) \<Longrightarrow> indep r s (case x of (a, b, c) \<Rightarrow> f a b c)"
  by (cases x) auto

lemma candidates_step:
  "candidates P pl a w (act # rest) plans =
     bindH (replayOn P pl a w) (\<lambda>(fin, A, W).
     bindH (liftE (canPerform act A W)) (\<lambda>ok.
       if \<not> ok then candidates P pl a w rest plans
       else candidates P pl a w rest (plans @ [pl @ [act]])))"
  by (auto simp: fun_eq_iff replayOn_def bindH_def liftE_def canPerform_at_def pseudoAgentFrom_def
        simulate_in_place_at_def readStores_def returnH_def nth_append list_update_append
        split: prod.splits sum.splits)

lemma replayAll_step:
  "replayAll P a w (q # rest) acc =
     bindH (replayOn P q a w) (\<lambda>(fin, A, W). replayAll P a w rest (acc @ [(q, A, W)]))"
  by (auto simp: fun_eq_iff replayOn_def bindH_def pseudoAgentFrom_def
        simulate_in_place_at_def readStores_def returnH_def nth_append list_update_append
        split: prod.splits sum.splits)

lemma simulate_alt:
  "simulate P g pl a w =
     bindH (replayOn P pl a w) (\<lambda>(fin, A, W).
       if \<not> fin then returnH False else liftE (goalReached g A W))"
  by (auto simp: fun_eq_iff simulate_def replayOn_def bindH_def pseudoAgentFrom_def liftE_def
        goalReached_at_def
        simulate_in_place_at_def readStores_def returnH_def nth_append list_update_append
        split: prod.splits sum.splits)

lemma keeps_candidates: "keeps (candidates P pl a w acts plans)"
proof (induction acts arbitrary: plans)
  case Nil
  show ?case by (simp add: keeps_returnH)
next
  case (Cons act rest)
  show ?case unfolding candidates_step
    by (intro keeps_bindH keeps_replayOn keeps_split3 keeps_liftE) (simp add: Cons)
qed

lemma indep_candidates: "indep a w (candidates P pl a w acts plans)"
proof (induction acts arbitrary: plans)
  case Nil
  show ?case by (simp add: indep_returnH)
next
  case (Cons act rest)
  show ?case unfolding candidates_step
    by (intro indep_bindH indep_replayOn indep_split3 indep_liftE) (simp add: Cons)
qed

lemma keeps_replayAll: "keeps (replayAll P a w qs acc)"
proof (induction qs arbitrary: acc)
  case Nil
  show ?case by (simp add: keeps_returnH)
next
  case (Cons q rest)
  show ?case unfolding replayAll_step
    by (intro keeps_bindH keeps_replayOn keeps_split3) (rule Cons)
qed

lemma indep_replayAll: "indep a w (replayAll P a w qs acc)"
proof (induction qs arbitrary: acc)
  case Nil
  show ?case by (simp add: indep_returnH)
next
  case (Cons q rest)
  show ?case unfolding replayAll_step
    by (intro indep_bindH indep_replayOn indep_split3) (rule Cons)
qed

lemma keeps_gather: "(\<And>p. keeps (recur p)) \<Longrightarrow> keeps (gather recur P a w stack acc)"
proof (induction stack arbitrary: acc)
  case Nil
  show ?case by (simp add: keeps_returnH)
next
  case (Cons p stack)
  show ?case unfolding gather.simps
    by (intro keeps_bindH Cons.prems keeps_replayAll Cons.IH)
qed

lemma indep_gather: "(\<And>p. indep a w (recur p)) \<Longrightarrow> indep a w (gather recur P a w stack acc)"
proof (induction stack arbitrary: acc)
  case Nil
  show ?case by (simp add: indep_returnH)
next
  case (Cons p stack)
  show ?case unfolding gather.simps
    by (intro indep_bindH Cons.prems indep_replayAll Cons.IH)
qed

lemma rankAndCut_liftE:
  "rankAndCut g es = liftE (case array_sort (cmpEntry g) es of Inl e \<Rightarrow> Inl e
                             | Inr ranked \<Rightarrow> Inr (map fst (take 3 ranked)))"
  by (auto simp: rankAndCut_def liftE_def fun_eq_iff split: sum.splits)

lemma keeps_plan_introspection: "keeps (plan_introspection P g pl a w d)"
proof (induction d arbitrary: pl)
  case 0
  show ?case by (simp add: keeps_returnH)
next
  case (Suc d)
  show ?case unfolding plan_introspection.simps rankAndCut_liftE
    by (intro keeps_bindH keeps_candidates keeps_gather Suc keeps_liftE)
qed

lemma indep_plan_introspection: "indep a w (plan_introspection P g pl a w d)"
proof (induction d arbitrary: pl)
  case 0
  show ?case by (simp add: indep_returnH)
next
  case (Suc d)
  show ?case unfolding plan_introspection.simps rankAndCut_liftE
    by (intro indep_bindH indep_candidates indep_gather Suc indep_liftE)
qed

lemma keeps_introspect: "keeps (introspect P g pl a w d)"
  unfolding introspect_def
  by (auto intro!: keeps_bindH keeps_plan_introspection keeps_returnH keeps_throwH split: list.splits)

lemma indep_introspect: "indep a w (introspect P g pl a w d)"
  unfolding introspect_def
  by (auto intro!: indep_bindH indep_plan_introspection indep_returnH indep_throwH split: list.splits)

lemma keeps_simulate: "keeps (simulate P g pl a w)"
  unfolding simulate_alt
  by (auto intro!: keeps_bindH keeps_replayOn keeps_split3 keeps_returnH keeps_liftE)

lemma indep_simulate: "indep a w (simulate P g pl a w)"
  unfolding simulate_alt
  by (auto intro!: indep_bindH indep_replayOn indep_split3 indep_returnH indep_liftE)

lemma keeps_canPerform_at: "keeps (canPerform_at act a w)"
  by (simp add: keeps_def canPerform_at_def)

lemma indep_canPerform_at: "indep a w (canPerform_at act a w)"
  by (simp add: indep_def canPerform_at_def holds_def)

lemma keeps_plan_loop: "keeps (plan_loop P g a w n dn pl)"
proof (induction n arbitrary: dn pl)
  case 0
  show ?case by (subst plan_loop.simps) (simp add: keeps_returnH)
next
  case (Suc n)
  show ?case
    by (subst plan_loop.simps)
       (auto intro!: keeps_bindH keeps_introspect keeps_returnH keeps_canPerform_at keeps_simulate
                     Suc split: option.splits)
qed

lemma indep_plan_loop: "indep a w (plan_loop P g a w n dn pl)"
proof (induction n arbitrary: dn pl)
  case 0
  show ?case by (subst plan_loop.simps) (simp add: indep_returnH)
next
  case (Suc n)
  show ?case
    by (subst plan_loop.simps)
       (auto intro!: indep_bindH indep_introspect indep_returnH indep_canPerform_at indep_simulate
                     Suc split: option.splits)
qed

lemma keeps_plan: "keeps (plan P g a w)"
  by (simp add: plan_def keeps_returnH keeps_plan_loop)

lemma indep_plan: "indep a w (plan P g a w)"
  by (simp add: plan_def indep_returnH indep_plan_loop)

text \<open>
  On stores of numbers, with effects that are functions of the two stores they are
  handed, \<open>plan\<close> only allocates: the heap after the call, whether \<open>plan\<close> returned or
  raised, is the heap before it followed by the clones.
\<close>

lemma plan_only_allocates:
  "take (length h) (snd (plan P g agent world h)) = h"
proof -
  from keeps_plan [of P g agent world] obtain xs where "snd (plan P g agent world h) = h @ xs"
    unfolding keeps_def by blast
  then show ?thesis by simp
qed

text \<open>
  Claim C9. A second call of \<open>plan\<close> with the same planner, goal and store references, on
  the heap the first call left behind, has the same outcome as the first: the same
  sequence of action objects, or the same absent value or exception.
\<close>

theorem plan_deterministic:
  assumes "agent < length h" and "world < length h"
  shows "fst (plan P g agent world (snd (plan P g agent world h))) = fst (plan P g agent world h)"
proof -
  have 1: "holds agent world (h ! agent) (h ! world) h"
    using assms by (simp add: holds_def)
  with indep_plan [of agent world P g]
  have 2: "holds agent world (h ! agent) (h ! world) (snd (plan P g agent world h))"
    unfolding indep_def by blast
  from indep_plan [of agent world P g] 1 2 show ?thesis
    unfolding indep_def by metis
qed

theorem plan_deterministic_witness:
  "(0::nat) < length [demoAgent, demoWorld] \<and> (1::nat) < length [demoAgent, demoWorld]
   \<and> fst (plan demoPlanner surviveGoal 0 1
            (snd (plan demoPlanner surviveGoal 0 1 [demoAgent, demoWorld])))
     = fst (plan demoPlanner surviveGoal 0 1 [demoAgent, demoWorld])"
  using plan_deterministic [where agent = 0 and world = 1 and h = "[demoAgent, demoWorld]"
                              and P = demoPlanner and g = surviveGoal]
  by simp

section \<open>What the search returns\<close>

lemma ensuresI:
  "(\<And>h x h'. holds a w A W h \<Longrightarrow> m h = (Inr x, h') \<Longrightarrow> holds a w A W h' \<and> Q x)
   \<Longrightarrow> ensures a w A W m Q"
  unfolding ensures_def by blast

lemma ensuresD:
  "ensures a w A W m Q \<Longrightarrow> holds a w A W h \<Longrightarrow> m h = (Inr x, h') \<Longrightarrow> holds a w A W h' \<and> Q x"
  unfolding ensures_def by blast

lemma ensures_returnH: "Q x \<Longrightarrow> ensures a w A W (returnH x) Q"
  by (auto simp: ensures_def returnH_def)

lemma ensures_throwH: "ensures a w A W (throwH e) Q"
  by (auto simp: ensures_def throwH_def)

lemma ensures_liftE: "(\<And>x. r = Inr x \<Longrightarrow> Q x) \<Longrightarrow> ensures a w A W (liftE r) Q"
  by (auto simp: ensures_def liftE_def)

lemma ensures_weaken:
  "ensures a w A W m Q \<Longrightarrow> (\<And>x. Q x \<Longrightarrow> Q' x) \<Longrightarrow> ensures a w A W m Q'"
  unfolding ensures_def by blast

lemma ensures_bindH:
  assumes "ensures a w A W m Q" and "\<And>x. Q x \<Longrightarrow> ensures a w A W (f x) R"
  shows "ensures a w A W (bindH m f) R"
proof (rule ensuresI)
  fix h y h'
  assume H: "holds a w A W h" and run: "bindH m f h = (Inr y, h')"
  obtain r k where mh: "m h = (r, k)" by (cases "m h")
  show "holds a w A W h' \<and> R y"
  proof (cases r)
    case (Inl e)
    with mh run show ?thesis by (simp add: bindH_def)
  next
    case (Inr x)
    with mh run have fx: "f x k = (Inr y, h')" by (simp add: bindH_def)
    from ensuresD [OF assms(1) H] mh Inr have "holds a w A W k" and "Q x" by auto
    with ensuresD [OF assms(2) _ fx] show ?thesis by blast
  qed
qed

lemma ensures_split3:
  "(\<And>p q r. x = (p, q, r) \<Longrightarrow> ensures a w A W (f p q r) Q)
   \<Longrightarrow> ensures a w A W (case x of (p, q, r) \<Rightarrow> f p q r) Q"
  by (cases x) auto

lemma ensures_replayOn:
  "ensures a w A W (replayOn P pl a w) (\<lambda>res. replayed P pl A W = Inr res)"
proof (rule ensuresI)
  fix h x h'
  assume H: "holds a w A W h" and run: "replayOn P pl a w h = (Inr x, h')"
  from replayOn_run [OF H, of P pl] run holds_append [OF H]
  show "holds a w A W h' \<and> replayed P pl A W = Inr x" by auto
qed

lemma ensures_indep:
  assumes "indep a w m"
  shows "ensures a w A W m (\<lambda>x. \<forall>h. holds a w A W h \<longrightarrow> fst (m h) = Inr x)"
proof (rule ensuresI)
  fix h x h'
  assume H: "holds a w A W h" and run: "m h = (Inr x, h')"
  from assms H have "holds a w A W (snd (m h))" unfolding indep_def by blast
  moreover have "fst (m k) = Inr x" if "holds a w A W k" for k
    using assms H that run unfolding indep_def by (metis fst_conv)
  ultimately show "holds a w A W h' \<and> (\<forall>h. holds a w A W h \<longrightarrow> fst (m h) = Inr x)"
    using run by simp
qed

lemma ensures_candidates:
  "ensures a w A W (candidates P pl a w acts plans)
     (\<lambda>ps. \<exists>sel. ps = plans @ map (\<lambda>act. pl @ [act]) sel \<and> set sel \<subseteq> set acts)"
proof (induction acts arbitrary: plans)
  case Nil
  show ?case by (auto intro!: ensures_returnH)
next
  case (Cons act rest)
  have skip: "ensures a w A W (candidates P pl a w rest plans)
     (\<lambda>ps. \<exists>sel. ps = plans @ map (\<lambda>act. pl @ [act]) sel \<and> set sel \<subseteq> set (act # rest))"
    by (rule ensures_weaken [OF Cons.IH]) auto
  have take: "ensures a w A W (candidates P pl a w rest (plans @ [pl @ [act]]))
     (\<lambda>ps. \<exists>sel. ps = plans @ map (\<lambda>act. pl @ [act]) sel \<and> set sel \<subseteq> set (act # rest))"
  proof (rule ensures_weaken [OF Cons.IH])
    fix ps
    assume "\<exists>sel. ps = (plans @ [pl @ [act]]) @ map (\<lambda>act. pl @ [act]) sel \<and> set sel \<subseteq> set rest"
    then obtain sel where "ps = plans @ map (\<lambda>act. pl @ [act]) (act # sel)" "set (act # sel) \<subseteq> set (act # rest)"
      by auto
    then show "\<exists>sel. ps = plans @ map (\<lambda>act. pl @ [act]) sel \<and> set sel \<subseteq> set (act # rest)"
      by blast
  qed
  show ?case unfolding candidates_step
  proof (rule ensures_bindH [OF ensures_replayOn], rule ensures_split3,
         rule ensures_bindH [OF ensures_liftE [where Q = "\<lambda>x. True"]])
    fix ok :: bool
    show "ensures a w A W
           (if \<not> ok then candidates P pl a w rest plans
            else candidates P pl a w rest (plans @ [pl @ [act]]))
           (\<lambda>ps. \<exists>sel. ps = plans @ map (\<lambda>act. pl @ [act]) sel \<and> set sel \<subseteq> set (act # rest))"
      using skip take by (cases ok) (simp_all del: set_simps)
  qed simp
qed

lemma ensures_replayAll:
  "ensures a w A W (replayAll P a w qs acc)
     (\<lambda>es. \<exists>new. es = acc @ new \<and> map fst new = qs \<and> list_all (isReplay P A W) new)"
proof (induction qs arbitrary: acc)
  case Nil
  show ?case unfolding replayAll.simps by (rule ensures_returnH) simp
next
  case (Cons q rest)
  have step: "ensures a w A W (replayAll P a w rest (acc @ [(q, A', W')]))
     (\<lambda>es. \<exists>new. es = acc @ new \<and> map fst new = q # rest \<and> list_all (isReplay P A W) new)"
    if "replayed P q A W = Inr (fin, A', W')" for fin A' W'
  proof (rule ensures_weaken [OF Cons.IH])
    fix es
    assume "\<exists>new. es = (acc @ [(q, A', W')]) @ new \<and> map fst new = rest
              \<and> list_all (isReplay P A W) new"
    then obtain new where new: "es = (acc @ [(q, A', W')]) @ new" "map fst new = rest"
        "list_all (isReplay P A W) new"
      by (elim exE conjE)
    have "isReplay P A W (q, A', W')" using that by (simp add: isReplay_def)
    with new have "es = acc @ ((q, A', W') # new) \<and> map fst ((q, A', W') # new) = q # rest
        \<and> list_all (isReplay P A W) ((q, A', W') # new)"
      by simp
    then show "\<exists>new. es = acc @ new \<and> map fst new = q # rest \<and> list_all (isReplay P A W) new"
      by (rule exI)
  qed
  show ?case unfolding replayAll_step
  proof (rule ensures_bindH [OF ensures_replayOn], rule ensures_split3)
    fix x fin A' W'
    assume "replayed P q A W = Inr x" and "x = (fin, A', W')"
    then have "replayed P q A W = Inr (fin, A', W')" by simp
    then show "ensures a w A W (replayAll P a w rest (acc @ [(q, A', W')]))
      (\<lambda>es. \<exists>new. es = acc @ new \<and> map fst new = q # rest \<and> list_all (isReplay P A W) new)"
      by (rule step)
  qed
qed

lemma insertBy_mset: "insertBy c x ys = Inr zs \<Longrightarrow> mset zs = {#x#} + mset ys"
proof (induction ys arbitrary: zs)
  case Nil
  then show ?case by auto
next
  case (Cons y ys)
  then show ?case by (auto split: sum.splits if_splits)
qed

lemma array_sort_mset: "array_sort c xs = Inr ys \<Longrightarrow> mset ys = mset xs"
proof (induction xs arbitrary: ys)
  case Nil
  then show ?case by simp
next
  case (Cons x xs)
  then obtain zs where zs: "array_sort c xs = Inr zs" and ins: "insertBy c x zs = Inr ys"
    by (auto split: sum.splits)
  from Cons.IH [OF zs] insertBy_mset [OF ins] show ?case by simp
qed

lemma array_sort_set: "array_sort c xs = Inr ys \<Longrightarrow> set ys = set xs"
  by (metis array_sort_mset set_mset_mset)

lemma ensures_rankAndCut:
  "ensures a w A W (rankAndCut g es)
     (\<lambda>ps. \<exists>ranked. array_sort (cmpEntry g) es = Inr ranked \<and> ps = map fst (take 3 ranked))"
  unfolding rankAndCut_liftE
  by (rule ensures_liftE) (auto split: sum.splits)

lemma extends_step:
  "act \<in> set (actions P) \<Longrightarrow> extends P d (pl @ [act]) q \<Longrightarrow> extends P (Suc d) pl q"
proof -
  assume act: "act \<in> set (actions P)" and ex: "extends P d (pl @ [act]) q"
  from ex have len: "length q = Suc (length pl) + d"
    and tk: "take (Suc (length pl)) q = pl @ [act]"
    and dr: "set (drop (Suc (length pl)) q) \<subseteq> set (actions P)"
    by (simp_all add: extends_def)
  from tk have q: "q = (pl @ [act]) @ drop (Suc (length pl)) q"
    by (metis append_take_drop_id)
  have "take (length pl) q = pl"
    by (subst q) simp
  moreover have "drop (length pl) q = act # drop (Suc (length pl)) q"
    by (subst q) simp
  ultimately show ?thesis using len dr act by (simp add: extends_def)
qed

lemma ensures_gather:
  assumes "\<And>p. p \<in> set stack \<Longrightarrow> ensures a w A W (recur p) (\<lambda>qs. list_all (Q p) qs)"
  shows "ensures a w A W (gather recur P a w stack acc)
     (\<lambda>es. \<exists>new. es = acc @ new \<and> list_all (isReplay P A W) new
              \<and> list_all (\<lambda>e. \<exists>p \<in> set stack. Q p (fst e)) new)"
  using assms
proof (induction stack arbitrary: acc)
  case Nil
  show ?case unfolding gather.simps by (rule ensures_returnH) simp
next
  case (Cons p stack)
  have rest: "ensures a w A W (gather recur P a w stack (acc @ mid))
     (\<lambda>es. \<exists>new. es = acc @ new \<and> list_all (isReplay P A W) new
              \<and> list_all (\<lambda>e. \<exists>p' \<in> set (p # stack). Q p' (fst e)) new)"
    if mid: "list_all (isReplay P A W) mid" "list_all (\<lambda>e. Q p (fst e)) mid" for mid
  proof (rule ensures_weaken [OF Cons.IH])
    fix p' assume "p' \<in> set stack"
    then show "ensures a w A W (recur p') (\<lambda>qs. list_all (Q p') qs)"
      by (intro Cons.prems) simp
  next
    fix es
    assume "\<exists>new. es = (acc @ mid) @ new \<and> list_all (isReplay P A W) new
              \<and> list_all (\<lambda>e. \<exists>p \<in> set stack. Q p (fst e)) new"
    then obtain new where new: "es = (acc @ mid) @ new" "list_all (isReplay P A W) new"
        "list_all (\<lambda>e. \<exists>p \<in> set stack. Q p (fst e)) new"
      by (elim exE conjE)
    from new(3) have "list_all (\<lambda>e. \<exists>p' \<in> set (p # stack). Q p' (fst e)) new"
      by (auto simp: list_all_iff)
    moreover from mid(2) have "list_all (\<lambda>e. \<exists>p' \<in> set (p # stack). Q p' (fst e)) mid"
      by (auto simp: list_all_iff)
    ultimately have "es = acc @ (mid @ new) \<and> list_all (isReplay P A W) (mid @ new)
        \<and> list_all (\<lambda>e. \<exists>p' \<in> set (p # stack). Q p' (fst e)) (mid @ new)"
      using new(1,2) mid(1) by simp
    then show "\<exists>new. es = acc @ new \<and> list_all (isReplay P A W) new
              \<and> list_all (\<lambda>e. \<exists>p' \<in> set (p # stack). Q p' (fst e)) new"
      by (rule exI)
  qed
  have head: "ensures a w A W (recur p) (\<lambda>qs. list_all (Q p) qs)"
    by (intro Cons.prems) simp
  show ?case unfolding gather.simps
  proof (rule ensures_bindH [OF head], rule ensures_bindH [OF ensures_replayAll])
    fix qs es
    assume qs: "list_all (Q p) qs"
      and "\<exists>new. es = acc @ new \<and> map fst new = qs \<and> list_all (isReplay P A W) new"
    then obtain mid where mid: "es = acc @ mid" "map fst mid = qs" "list_all (isReplay P A W) mid"
      by (elim exE conjE)
    from qs mid(2) have "list_all (\<lambda>e. Q p (fst e)) mid"
      by (fastforce simp: list_all_iff)
    from rest [OF mid(3) this] mid(1)
    show "ensures a w A W (gather recur P a w stack es)
     (\<lambda>es. \<exists>new. es = acc @ new \<and> list_all (isReplay P A W) new
              \<and> list_all (\<lambda>e. \<exists>p' \<in> set (p # stack). Q p' (fst e)) new)"
      by simp
  qed
qed

lemma bindH_assoc: "bindH (bindH m f) k = bindH m (\<lambda>x. bindH (f x) k)"
  by (auto simp: bindH_def fun_eq_iff split: prod.splits sum.splits)

lemma plan_introspection_Suc:
  "plan_introspection P g pl a w (Suc d) = bindH (leavesOf P g pl a w d) (rankAndCut g)"
  by (simp add: leavesOf_def bindH_assoc)

lemma extends_refl: "extends P 0 pl pl"
  by (simp add: extends_def)

lemma ensures_leavesOf:
  assumes IH: "\<And>p. ensures a w A W (plan_introspection P g p a w d) (\<lambda>ps. list_all (extends P d p) ps)"
  shows "ensures a w A W (leavesOf P g pl a w d)
     (\<lambda>es. list_all (isReplay P A W) es \<and> list_all (\<lambda>e. extends P (Suc d) pl (fst e)) es)"
  unfolding leavesOf_def
proof (rule ensures_bindH [OF ensures_candidates])
  fix plans
  assume "\<exists>sel. plans = [] @ map (\<lambda>act. pl @ [act]) sel
            \<and> set sel \<subseteq> set (filter (notLast pl) (actions P))"
  then obtain sel where plans: "plans = map (\<lambda>act. pl @ [act]) sel"
      and sel: "set sel \<subseteq> set (actions P)"
    by auto
  show "ensures a w A W (gather (\<lambda>p. plan_introspection P g p a w d) P a w (rev plans) [])
     (\<lambda>es. list_all (isReplay P A W) es \<and> list_all (\<lambda>e. extends P (Suc d) pl (fst e)) es)"
  proof (rule ensures_weaken [OF ensures_gather [where Q = "extends P d"]])
    fix p
    show "ensures a w A W (plan_introspection P g p a w d) (list_all (extends P d p))"
      by (rule IH)
  next
    fix es
    assume "\<exists>new. es = [] @ new \<and> list_all (isReplay P A W) new
              \<and> list_all (\<lambda>e. \<exists>p \<in> set (rev plans). extends P d p (fst e)) new"
    then have rep: "list_all (isReplay P A W) es"
      and ext: "list_all (\<lambda>e. \<exists>p \<in> set (rev plans). extends P d p (fst e)) es"
      by auto
    have "extends P (Suc d) pl (fst e)" if "e \<in> set es" for e
    proof -
      from ext that obtain p where "p \<in> set plans" "extends P d p (fst e)"
        by (auto simp: list_all_iff)
      with plans sel obtain act where "act \<in> set (actions P)" "extends P d (pl @ [act]) (fst e)"
        by auto
      then show ?thesis by (rule extends_step)
    qed
    with rep show "list_all (isReplay P A W) es \<and> list_all (\<lambda>e. extends P (Suc d) pl (fst e)) es"
      by (simp add: list_all_iff)
  qed
qed

lemma ensures_plan_introspection:
  "ensures a w A W (plan_introspection P g pl a w d) (\<lambda>ps. list_all (extends P d pl) ps)"
proof (induction d arbitrary: pl)
  case 0
  show ?case unfolding plan_introspection.simps
    by (rule ensures_returnH) (simp add: extends_refl)
next
  case (Suc d)
  show ?case unfolding plan_introspection_Suc
  proof (rule ensures_bindH [OF ensures_leavesOf [OF Suc]], rule ensures_weaken [OF ensures_rankAndCut])
    fix es ps
    assume es: "list_all (isReplay P A W) es \<and> list_all (\<lambda>e. extends P (Suc d) pl (fst e)) es"
      and "\<exists>ranked. array_sort (cmpEntry g) es = Inr ranked \<and> ps = map fst (take 3 ranked)"
    then obtain ranked where r: "array_sort (cmpEntry g) es = Inr ranked"
      and ps: "ps = map fst (take 3 ranked)"
      by (elim exE conjE)
    have "set (take 3 ranked) \<subseteq> set es"
      using array_sort_set [OF r] set_take_subset [of 3 ranked] by simp
    with es ps show "list_all (extends P (Suc d) pl) ps"
      by (auto simp: list_all_iff)
  qed
qed

lemma ensures_introspect:
  "ensures a w A W (introspect P g pl a w (Suc d)) (\<lambda>r. \<exists>op. r = Some op \<and> op \<in> set (actions P))"
  unfolding introspect_def
proof (simp del: plan_introspection.simps, rule ensures_bindH [OF ensures_plan_introspection])
  fix newPlans
  assume ext: "list_all (extends P (Suc d) pl) newPlans"
  show "ensures a w A W
          (case newPlans of [] \<Rightarrow> throwH TypeError
           | newPlan # others \<Rightarrow>
               if length newPlan \<le> length pl then returnH None
               else returnH (Some (newPlan ! length pl)))
          (\<lambda>r. \<exists>op. r = Some op \<and> op \<in> set (actions P))"
  proof (cases newPlans)
    case Nil
    then show ?thesis by (simp add: ensures_throwH)
  next
    case (Cons newPlan others)
    with ext have e: "extends P (Suc d) pl newPlan" by simp
    then have len: "length pl < length newPlan" by (simp add: extends_def)
    then have "newPlan ! length pl \<in> set (drop (length pl) newPlan)"
      by (metis Cons_nth_drop_Suc list.set_intros(1))
    with e have "newPlan ! length pl \<in> set (actions P)" by (auto simp: extends_def)
    with len Cons show ?thesis by (simp add: ensures_returnH)
  qed
qed

lemma ensures_plan_loop:
  assumes "length pl + n = 50" and "set pl \<subseteq> set (actions P)"
      and "dn \<Longrightarrow> pl \<noteq> [] \<and> (\<forall>h. holds a w A W h \<longrightarrow> fst (simulate P g pl a w h) = Inr True)"
  shows "ensures a w A W (plan_loop P g a w n dn pl)
     (\<lambda>r. \<exists>pl'. r = Some pl' \<and> set pl' \<subseteq> set (actions P)
            \<and> (length pl' = 50
               \<or> (pl' \<noteq> [] \<and> (\<forall>h. holds a w A W h \<longrightarrow> fst (simulate P g pl' a w h) = Inr True))))"
  using assms
proof (induction n arbitrary: dn pl)
  case 0
  show ?case
    by (subst plan_loop.simps) (use 0 in \<open>simp add: ensures_returnH\<close>)
next
  case (Suc n)
  show ?case
  proof (cases dn)
    case True
    with Suc.prems show ?thesis
      by (subst plan_loop.simps) (simp add: ensures_returnH)
  next
    case False
    have body: "ensures a w A W
       (bindH (introspect P g pl a w 5) (\<lambda>doOpt.
          case doOpt of
            None \<Rightarrow> returnH None
          | Some op \<Rightarrow>
              bindH (canPerform_at op a w) (\<lambda>ok.
                if ok then
                  bindH (simulate P g (pl @ [op]) a w) (\<lambda>reached.
                    plan_loop P g a w n reached (pl @ [op]))
                else plan_loop P g a w n False (pl @ [op]))))
       (\<lambda>r. \<exists>pl'. r = Some pl' \<and> set pl' \<subseteq> set (actions P)
            \<and> (length pl' = 50
               \<or> (pl' \<noteq> [] \<and> (\<forall>h. holds a w A W h \<longrightarrow> fst (simulate P g pl' a w h) = Inr True))))"
    proof (rule ensures_bindH [OF ensures_introspect [where d = 4, simplified]])
      fix doOpt
      assume "\<exists>op. doOpt = Some op \<and> op \<in> set (actions P)"
      then obtain op where op: "doOpt = Some op" "op \<in> set (actions P)"
        by (elim exE conjE)
      have len: "length (pl @ [op]) + n = 50" and sub: "set (pl @ [op]) \<subseteq> set (actions P)"
        using Suc.prems(1,2) op(2) by simp_all
      have no: "ensures a w A W (plan_loop P g a w n False (pl @ [op]))
         (\<lambda>r. \<exists>pl'. r = Some pl' \<and> set pl' \<subseteq> set (actions P)
            \<and> (length pl' = 50
               \<or> (pl' \<noteq> [] \<and> (\<forall>h. holds a w A W h \<longrightarrow> fst (simulate P g pl' a w h) = Inr True))))"
        by (rule Suc.IH [OF len sub]) simp
      have yes: "ensures a w A W
         (bindH (simulate P g (pl @ [op]) a w) (\<lambda>reached. plan_loop P g a w n reached (pl @ [op])))
         (\<lambda>r. \<exists>pl'. r = Some pl' \<and> set pl' \<subseteq> set (actions P)
            \<and> (length pl' = 50
               \<or> (pl' \<noteq> [] \<and> (\<forall>h. holds a w A W h \<longrightarrow> fst (simulate P g pl' a w h) = Inr True))))"
      proof (rule ensures_bindH [OF ensures_indep [OF indep_simulate]])
        fix reached
        assume "\<forall>h. holds a w A W h \<longrightarrow> fst (simulate P g (pl @ [op]) a w h) = Inr reached"
        then show "ensures a w A W (plan_loop P g a w n reached (pl @ [op]))
         (\<lambda>r. \<exists>pl'. r = Some pl' \<and> set pl' \<subseteq> set (actions P)
            \<and> (length pl' = 50
               \<or> (pl' \<noteq> [] \<and> (\<forall>h. holds a w A W h \<longrightarrow> fst (simulate P g pl' a w h) = Inr True))))"
          by (intro Suc.IH [OF len sub]) simp
      qed
      have "ensures a w A W
         (bindH (canPerform_at op a w) (\<lambda>ok.
            if ok then
              bindH (simulate P g (pl @ [op]) a w) (\<lambda>reached.
                plan_loop P g a w n reached (pl @ [op]))
            else plan_loop P g a w n False (pl @ [op])))
         (\<lambda>r. \<exists>pl'. r = Some pl' \<and> set pl' \<subseteq> set (actions P)
            \<and> (length pl' = 50
               \<or> (pl' \<noteq> [] \<and> (\<forall>h. holds a w A W h \<longrightarrow> fst (simulate P g pl' a w h) = Inr True))))"
      proof (rule ensures_bindH [OF ensures_indep [OF indep_canPerform_at]])
        fix ok :: bool
        show "ensures a w A W
           (if ok then
              bindH (simulate P g (pl @ [op]) a w) (\<lambda>reached.
                plan_loop P g a w n reached (pl @ [op]))
            else plan_loop P g a w n False (pl @ [op]))
           (\<lambda>r. \<exists>pl'. r = Some pl' \<and> set pl' \<subseteq> set (actions P)
            \<and> (length pl' = 50
               \<or> (pl' \<noteq> [] \<and> (\<forall>h. holds a w A W h \<longrightarrow> fst (simulate P g pl' a w h) = Inr True))))"
          using yes no by (cases ok) simp_all
      qed
      with op(1) show "ensures a w A W
         (case doOpt of
            None \<Rightarrow> returnH None
          | Some op \<Rightarrow>
              bindH (canPerform_at op a w) (\<lambda>ok.
                if ok then
                  bindH (simulate P g (pl @ [op]) a w) (\<lambda>reached.
                    plan_loop P g a w n reached (pl @ [op]))
                else plan_loop P g a w n False (pl @ [op])))
         (\<lambda>r. \<exists>pl'. r = Some pl' \<and> set pl' \<subseteq> set (actions P)
            \<and> (length pl' = 50
               \<or> (pl' \<noteq> [] \<and> (\<forall>h. holds a w A W h \<longrightarrow> fst (simulate P g pl' a w h) = Inr True))))"
        by simp
    qed
    have unfold: "plan_loop P g a w (Suc n) False pl =
       bindH (introspect P g pl a w 5) (\<lambda>doOpt.
          case doOpt of
            None \<Rightarrow> returnH None
          | Some op \<Rightarrow>
              bindH (canPerform_at op a w) (\<lambda>ok.
                if ok then
                  bindH (simulate P g (pl @ [op]) a w) (\<lambda>reached.
                    plan_loop P g a w n reached (pl @ [op]))
                else plan_loop P g a w n False (pl @ [op])))"
      by (subst plan_loop.simps) (simp cong: option.case_cong if_cong)
    from False have dn: "dn = False" by simp
    show ?thesis unfolding dn unfold by (rule body)
  qed
qed


subsection \<open>Evaluating the planner on the concrete inputs\<close>

lemma depth5:
  "plan_introspection P g pl a w 5 = plan_introspection P g pl a w (Suc (Suc (Suc (Suc (Suc 0)))))"
proof -
  have "(5::nat) = Suc (Suc (Suc (Suc (Suc 0))))" by simp
  then show ?thesis by (simp only:)
qed

lemmas eval_defs = depth5 plan_def plan_loop.simps introspect_def bindH_def returnH_def throwH_def
  pseudoAgentFrom_def copy_store_def store_keys_def store_get_def store_put_def store_set_def
  unwrap_def is_some_def createPseudoAgent_def simulate_in_place_at_def canPerform_at_def
  goalReached_at_def readStores_def notLast_def rankAndCut_def cmpEntry_def goalCmp_def
  verdict_def planCost_def applyAction_def setActions_def setAmbientActions_def newPlanner_def
  NOOP_def simulate_def goalReached_def changeAmtEffect_def changeAmt_apply_def
  changeAmt_check_def updateStore_def amt_amount_def amt_min_def amt_max_def math_min_def
  math_max_def bindE_def getNum_def buildExpects_def numCmp_def leavesOf_def always_def
  defaultComparer_def

lemmas demo_defs = surviveGoal_def fireHealthy_def haveWood_def dontStarve_def getWood_def
  addWoodToFire_def fireDecay_def eatFood_def demoPlanner_def demoAgent_def demoWorld_def
  woodAgent_def woodWorld_def decayedWorld_def

lemmas election_defs = electionPlanner_def electionGoal_def rankingGoal_def electionAgent_def
  ballot_def higher_def

lemmas step_defs = stepUp_def reachOne_def stepGoal_def stepPlanner_def stepAgent_def

lemma demo_depth1:
  "fst (plan_introspection demoPlanner surviveGoal [] 0 1 1 [demoAgent, demoWorld])
     = Inr [[getWood], [NOOP]]"
  by (simp add: eval_defs demo_defs)

lemma noop_depth2:
  "fst (plan_introspection (setActions [NOOP] newPlanner) surviveGoal [] 0 1 2
          [demoAgent, demoWorld]) = Inr []"
  by (simp add: eval_defs demo_defs eval_nat_numeral)

lemma step_plan:
  "fst (plan stepPlanner stepGoal 0 1 [stepAgent, []]) = Inr (Some [NOOP, stepUp])"
  by (simp add: eval_defs step_defs)

lemma step_simulate:
  "fst (simulate stepPlanner stepGoal [NOOP, stepUp] 0 1 [stepAgent, []]) = Inr True"
  by (simp add: eval_defs step_defs)

lemma step_no_effect_ranks:
  "\<not> effectRanksGT stepPlanner stepGoal stepAgent []"
  by (simp add: effectRanksGT_def eval_defs step_defs)

subsection \<open>Leaves have the full depth\<close>

text \<open>
  Claim C10. When \<open>plan_introspection\<close> returns on allocated stores, at any depth \<open>d\<close>,
  every plan of the list it returns has length \<open>length pl + d\<close>, starts with the input
  plan \<open>pl\<close>, and continues with registered actions. A branch that cannot be extended to
  the full depth leaves nothing in the list, and the list can be empty.
\<close>

theorem plan_introspection_extends:
  assumes "agent < length h" and "world < length h"
      and "fst (plan_introspection P g pl agent world d h) = Inr ps"
      and "q \<in> set ps"
  shows "length q = length pl + d \<and> take (length pl) q = pl
       \<and> set (drop (length pl) q) \<subseteq> set (actions P)"
proof -
  have H: "holds agent world (h ! agent) (h ! world) h"
    using assms(1,2) by (simp add: holds_def)
  obtain h' where run: "plan_introspection P g pl agent world d h = (Inr ps, h')"
    using assms(3) by (cases "plan_introspection P g pl agent world d h") simp
  from ensuresD [OF ensures_plan_introspection H run] assms(4)
  have "extends P d pl q" by (simp add: list_all_iff)
  then show ?thesis by (simp add: extends_def)
qed

theorem plan_introspection_extends_witness:
  "fst (plan_introspection demoPlanner surviveGoal [] 0 1 1 [demoAgent, demoWorld])
     = Inr [[getWood], [NOOP]]
   \<and> length [getWood] = length ([] :: action list) + 1
   \<and> take (length ([] :: action list)) [getWood] = []
   \<and> fst (plan_introspection (setActions [NOOP] newPlanner) surviveGoal [] 0 1 2
            [demoAgent, demoWorld]) = Inr []"
  using plan_introspection_extends [where h = "[demoAgent, demoWorld]" and agent = 0
          and world = 1 and q = "[getWood]", OF _ _ demo_depth1]
        demo_depth1 noop_depth2
  by simp

subsection \<open>plan raises when the search finds no leaf\<close>

text \<open>
  Claim C2 fails on the code. With \<^verbatim>\<open>No Op\<close> as the only registered action, the only
  candidate \<open>[NOOP]\<close> cannot be extended (an action never follows itself), so
  \<open>plan_introspection\<close> returns the empty list, and \<open>introspect\<close> raises a TypeError on
  \<^verbatim>\<open>newPlans[0].length\<close> instead of returning the absent value.
\<close>

theorem plan_raises_without_leaf:
  "fst (plan (setActions [NOOP] newPlanner) surviveGoal 0 1 [demoAgent, demoWorld])
     = Inl TypeError"
  by (simp add: eval_defs demo_defs)

subsection \<open>plan never consults effect checks\<close>

text \<open>
  Claim C3, as amended. \<open>plan\<close> goes straight to the search, so it can return a plan
  when no effect check ranks \<open>GT\<close> against an unmet expectation (the counterexample
  below). What holds of the plans it returns is this: for a goal with at least one
  expectation and allocated stores, whenever \<open>plan\<close> returns a plan, the plan is a
  sequence of registered actions that either has 50 actions or is not empty and confirmed
  by \<open>simulate\<close> to reach the goal. Nothing is stated about when \<open>plan\<close> returns the
  absent value.
\<close>

theorem plan_returns_plan:
  assumes "agent < length h" and "world < length h"
      and "expectations g \<noteq> []"
      and "fst (plan P g agent world h) = Inr (Some pl)"
  shows "set pl \<subseteq> set (actions P)
           \<and> (length pl = 50 \<or> (pl \<noteq> [] \<and> fst (simulate P g pl agent world h) = Inr True))"
proof -
  have H: "holds agent world (h ! agent) (h ! world) h"
    using assms(1,2) by (simp add: holds_def)
  obtain h' where "plan P g agent world h = (Inr (Some pl), h')"
    using assms(4) by (cases "plan P g agent world h") simp
  with assms(3) have run: "plan_loop P g agent world 50 False [] h = (Inr (Some pl), h')"
    by (simp add: plan_def)
  have "ensures agent world (h ! agent) (h ! world) (plan_loop P g agent world 50 False [])
     (\<lambda>r. \<exists>pl'. r = Some pl' \<and> set pl' \<subseteq> set (actions P)
            \<and> (length pl' = 50
               \<or> (pl' \<noteq> [] \<and> (\<forall>k. holds agent world (h ! agent) (h ! world) k
                      \<longrightarrow> fst (simulate P g pl' agent world k) = Inr True))))"
    by (rule ensures_plan_loop) simp_all
  from ensuresD [OF this H run] H show ?thesis by auto
qed

theorem plan_returns_plan_witness:
  "fst (plan stepPlanner stepGoal 0 1 [stepAgent, []]) = Inr (Some [NOOP, stepUp])
   \<and> fst (simulate stepPlanner stepGoal [NOOP, stepUp] 0 1 [stepAgent, []]) = Inr True"
  using plan_returns_plan [where h = "[stepAgent, []]" and agent = 0 and world = 1,
          OF _ _ _ step_plan]
        step_plan
  by (simp add: stepGoal_def)

text \<open>
  The claim as stated fails: the only effect of the registered actions is never ranked
  \<open>GT\<close> by the default comparer, and \<open>plan\<close> returns the plan \<open>[NOOP, stepUp]\<close>.
\<close>

theorem plan_infeasibility_counterexample:
  "\<not> effectRanksGT stepPlanner stepGoal stepAgent []
   \<and> fst (plan stepPlanner stepGoal 0 1 [stepAgent, []]) = Inr (Some [NOOP, stepUp])"
  using step_no_effect_ranks step_plan by simp

subsection \<open>The three best leaves\<close>


















lemma rankAndCut_with_array_sort: "rankAndCut_with array_sort = rankAndCut"
  by (simp add: rankAndCut_with_def rankAndCut_def fun_eq_iff)

lemma plan_introspection_with_array_sort:
  "plan_introspection_with array_sort P g pl a w d = plan_introspection P g pl a w d"
  by (induction d arbitrary: pl) (simp_all add: rankAndCut_with_array_sort)

lemma leavesOf_with_array_sort:
  "leavesOf_with array_sort P g pl a w d = leavesOf P g pl a w d"
  by (simp add: leavesOf_with_def leavesOf_def plan_introspection_with_array_sort)












lemma bindE_Inl: "bindE (Inl e) f = Inl e"
  by (simp add: bindE_def)

lemma foldl_bindE_Inl: "foldl (\<lambda>r x. bindE r (f x)) (Inl e) xs = Inl e"
  by (induction xs) (simp_all add: bindE_def)






subsection \<open>The ranking and the cycle on concrete leaves\<close>







lemma ranking_cut:
  "\<not> outranks rankingGoal ([ballot 4 1 2 3], [(''x'', 1), (''y'', 2), (''z'', 3)], [])
                           ([ballot 1 4 1 2], [(''x'', 4), (''y'', 1), (''z'', 2)], [])
 \<and> \<not> outranks rankingGoal ([ballot 4 1 2 3], [(''x'', 1), (''y'', 2), (''z'', 3)], [])
                           ([ballot 2 3 4 1], [(''x'', 3), (''y'', 4), (''z'', 1)], [])
 \<and> \<not> outranks rankingGoal ([ballot 4 1 2 3], [(''x'', 1), (''y'', 2), (''z'', 3)], [])
                           ([ballot 3 2 3 4], [(''x'', 2), (''y'', 3), (''z'', 4)], [])"
  by (simp add: outranks_def eval_defs election_defs)


subsection \<open>The returned plans are the first three of the sorted leaves\<close>





section \<open>The real stores and the arrays they hold\<close>






lemma tri_weaken: "tri s0 m Q \<Longrightarrow> (\<And>x. Q x \<Longrightarrow> Q' x) \<Longrightarrow> tri s0 m Q'"
  unfolding tri_def by blast





















subsection \<open>Evaluating the planner on the concrete inputs\<close>












subsection \<open>plan leaves the real stores unchanged when the effects are local\<close>





end
